theory Spec2Isabelle
  imports Complex_Main
begin

section \<open>The retry decorator (utilities.py)\<close>

text \<open>
  \<^verbatim>\<open>retry(exception, tries, delay, max_delay, backoff, local_logger)\<close> wraps a function
  \<open>func\<close>. The wrapped function may behave differently at each invocation, so it is
  modelled by the result of its \<open>i\<close>-th invocation: \<open>Inl err\<close> when it raises
  \<open>err\<close>, \<open>Inr v\<close> when it returns \<open>v\<close>. The field \<open>retried\<close> is the test
  \<^verbatim>\<open>isinstance(err, exception)\<close> of the \<^verbatim>\<open>except exception as err\<close> clause.
  Python numbers are unbounded: \<open>tries\<close> is an \<open>int\<close>, the delays are reals.
\<close>

record 'e retry_policy =
  retried :: "'e \<Rightarrow> bool"
  tries :: int
  delay :: real
  max_delay :: "real option"
  backoff :: real
  local_logger :: bool

datatype 'e retry_event =
    Invoke nat
  | LogException int 'e
  | LogWarning real 'e
  | LogDebug
  | Sleep real

text \<open>
  \<^verbatim>\<open>time.sleep(secs)\<close> does not always return: it raises \<^verbatim>\<open>ValueError\<close> when
  \<open>secs\<close> is negative, and \<^verbatim>\<open>OverflowError\<close> when \<open>secs\<close> is too large for the
  clock of the interpreter. The wrapper calls it inside its \<^verbatim>\<open>except\<close> block, so
  such an exception leaves the wrapper. The call is a parameter \<open>sleep\<close> of the model:
  \<open>None\<close> when it returns, the exception when it raises. \<open>time_sleep\<close> is the
  function that raises on the negative durations and returns on all others.
\<close>

datatype sleep_error = ValueError | OverflowError

definition time_sleep :: "real \<Rightarrow> sleep_error option" where
  "time_sleep secs = (if secs < 0 then Some ValueError else None)"

text \<open>
  How a call of the wrapped function ends: with the value or the exception of \<open>func\<close>,
  with an exception of \<^verbatim>\<open>time.sleep\<close>, or with the \<^verbatim>\<open>RuntimeError\<close> that follows the
  loop.
\<close>

datatype ('e, 'a) retry_outcome =
    Returned 'a
  | Raised 'e
  | SleepRaised sleep_error
  | RuntimeError_Unreachable

text \<open>
  The body of \<^verbatim>\<open>for _ in range(tries)\<close>. The first numeric argument counts the
  iterations the \<^verbatim>\<open>range\<close> has left, \<open>i\<close> is the number of invocations made so
  far, \<open>remain_tries\<close> and \<open>current_delay\<close> are the two local variables of the
  source. Falling out of the loop reaches the trailing \<^verbatim>\<open>raise RuntimeError\<close>.
  The trace records the duration of every call of \<^verbatim>\<open>time.sleep\<close>, whether the call
  returned or raised; when it raises, nothing after it in the \<^verbatim>\<open>except\<close> block runs.
\<close>

fun retry_loop ::
  "(real \<Rightarrow> sleep_error option) \<Rightarrow> 'e retry_policy \<Rightarrow> (nat \<Rightarrow> 'e + 'a) \<Rightarrow> nat \<Rightarrow> nat \<Rightarrow> int
    \<Rightarrow> real \<Rightarrow> 'e retry_event list \<Rightarrow> ('e, 'a) retry_outcome \<times> 'e retry_event list" where
  "retry_loop sleep p func 0 i remain_tries current_delay evs = (RuntimeError_Unreachable, evs)"
| "retry_loop sleep p func (Suc n) i remain_tries current_delay evs =
     (case func i of
        Inr v \<Rightarrow> (Returned v, evs @ [Invoke i])
      | Inl err \<Rightarrow>
          if \<not> retried p err then (Raised err, evs @ [Invoke i])
          else if remain_tries - 1 = 0 then
            (Raised err,
             evs @ [Invoke i] @ (if local_logger p then [LogException (tries p) err] else []))
          else
            (case sleep current_delay of
               Some sleep_err \<Rightarrow>
                 (SleepRaised sleep_err,
                  evs @ [Invoke i]
                    @ (if local_logger p then [LogWarning current_delay err, LogDebug] else [])
                    @ [Sleep current_delay])
             | None \<Rightarrow>
                 retry_loop sleep p func n (Suc i) (remain_tries - 1)
                   (case max_delay p of
                      None \<Rightarrow> current_delay * backoff p
                    | Some m \<Rightarrow> min (current_delay * backoff p) m)
                   (evs @ [Invoke i]
                      @ (if local_logger p then [LogWarning current_delay err, LogDebug] else [])
                      @ [Sleep current_delay])))"

definition fn_with_retry ::
  "(real \<Rightarrow> sleep_error option) \<Rightarrow> 'e retry_policy \<Rightarrow> (nat \<Rightarrow> 'e + 'a)
     \<Rightarrow> ('e, 'a) retry_outcome \<times> 'e retry_event list" where
  "fn_with_retry sleep p func = retry_loop sleep p func (nat (tries p)) 0 (tries p) (delay p) []"

text \<open>The invocations of \<open>func\<close> recorded in a trace, in order.\<close>

fun invocations :: "'e retry_event list \<Rightarrow> nat list" where
  "invocations [] = []"
| "invocations (Invoke i # evs) = i # invocations evs"
| "invocations (_ # evs) = invocations evs"

text \<open>What the caller sees of a single invocation of \<open>func\<close>.\<close>

definition attempt_outcome :: "'e + 'a \<Rightarrow> ('e, 'a) retry_outcome" where
  "attempt_outcome r = (case r of Inr v \<Rightarrow> Returned v | Inl err \<Rightarrow> Raised err)"

definition failed_retriably :: "'e retry_policy \<Rightarrow> 'e + 'a \<Rightarrow> bool" where
  "failed_retriably p r = (case r of Inr v \<Rightarrow> False | Inl err \<Rightarrow> retried p err)"

text \<open>
  Two concrete policies, \<^verbatim>\<open>@retry(tries=3, delay=5, backoff=2)\<close> and
  \<^verbatim>\<open>@retry(tries=3, delay=-1, backoff=2)\<close>, and a function that raises twice and then
  returns 7.
\<close>

definition demo_policy :: "string retry_policy" where
  "demo_policy = \<lparr>retried = (\<lambda>e. True), tries = 3, delay = 5, max_delay = None,
     backoff = 2, local_logger = True\<rparr>"

definition negative_delay_policy :: "string retry_policy" where
  "negative_delay_policy = \<lparr>retried = (\<lambda>e. True), tries = 3, delay = - 1, max_delay = None,
     backoff = 2, local_logger = True\<rparr>"

definition demo_func :: "nat \<Rightarrow> string + nat" where
  "demo_func i = (if i < 2 then Inl ''SSHError'' else Inr 7)"

section \<open>The runner scaler (manager/runner_scaler.py)\<close>

text \<open>
  Exceptions are values. \<open>CloudError\<close> stands for \<^verbatim>\<open>CloudError\<close> and its subclasses,
  \<open>OtherError\<close> for every exception that no \<^verbatim>\<open>except\<close> clause of the modelled
  functions names.
\<close>

datatype error =
    CloudError
  | MissingServerConfigError
  | ReconcileError
  | LockError
  | KombuError
  | QueueError
  | JobError
  | PlatformApiError
  | AttributeError
  | OtherError

text \<open>
  The metric event classes that key an \<^verbatim>\<open>IssuedMetricEventsStats\<close> dictionary, and the
  dictionary itself with \<^verbatim>\<open>dict.get(key, 0)\<close>.
\<close>

datatype metric_event = RunnerInstalled | RunnerStart | RunnerStop | ReconciliationEvent

type_synonym issued_metric_events_stats = "metric_event \<rightharpoonup> int"

definition stats_get :: "issued_metric_events_stats \<Rightarrow> metric_event \<Rightarrow> int" where
  "stats_get stats ev = (case stats ev of None \<Rightarrow> 0 | Some n \<Rightarrow> n)"

text \<open>
  \<^verbatim>\<open>{e: a.get(e, 0) + b.get(e, 0) for e in set(a) | set(b)}\<close>, the merge that
  \<^verbatim>\<open>_reconcile_non_reactive\<close> and \<^verbatim>\<open>flush\<close> both write out.
\<close>

definition merge_stats ::
  "issued_metric_events_stats \<Rightarrow> issued_metric_events_stats \<Rightarrow> issued_metric_events_stats" where
  "merge_stats a b =
     (\<lambda>ev. if ev \<in> dom a \<union> dom b then Some (stats_get a ev + stats_get b ev) else None)"

datatype github_runner_state = BUSY | IDLE | OFFLINE

datatype health_state = HEALTHY | UNHEALTHY | UNKNOWN

datatype flush_mode = FLUSH_IDLE | FLUSH_BUSY

text \<open>
  The fields of \<^verbatim>\<open>RunnerInstance\<close> that the scaler reads. \<open>github_state\<close> is
  \<open>None\<close> when the platform does not know the runner.
\<close>

record runner_instance =
  name :: string
  github_state :: "github_runner_state option"
  health :: health_state

text \<open>
  \<^verbatim>\<open>RunnerManager\<close> (manager/runner_manager.py) is not among the sources: its methods are
  parameters. Each takes the state of the outside world (cloud, platform, metric storage)
  and gives back what the call returned or raised, and the world after the call.
\<close>

record 'w runner_manager =
  manager_name :: string
  manager_cleanup :: "'w \<Rightarrow> (error + issued_metric_events_stats) \<times> 'w"
  manager_get_runners :: "'w \<Rightarrow> (error + runner_instance list) \<times> 'w"
  manager_create_runners :: "int \<Rightarrow> 'w \<Rightarrow> (error + string list) \<times> 'w"
  manager_delete_runners :: "int \<Rightarrow> 'w \<Rightarrow> (error + issued_metric_events_stats) \<times> 'w"
  manager_flush_runners :: "flush_mode \<Rightarrow> 'w \<Rightarrow> (error + issued_metric_events_stats) \<times> 'w"

datatype manager_call =
    Cleanup
  | GetRunners
  | CreateRunners int
  | DeleteRunners int
  | FlushRunners flush_mode
  | ReactiveReconcile int

text \<open>The \<^verbatim>\<open>Reconciliation\<close> metric event.\<close>

record reconciliation =
  timestamp :: real
  flavor :: string
  crashed_runners :: int
  idle_runners :: int
  active_runners :: int
  expected_runners :: int
  duration :: real

text \<open>
  The state threaded through the scaler: the outside world, the calls made on the runner
  manager so far, and the events handed to \<^verbatim>\<open>metric_events.issue_event\<close> so far.
  (\<^verbatim>\<open>issue_event\<close> may raise \<^verbatim>\<open>IssueMetricEventError\<close>, which
  \<^verbatim>\<open>_issue_reconciliation_metric\<close> catches and logs: the call is recorded either way.)
\<close>

record 'w sys =
  world :: 'w
  calls :: "manager_call list"
  issue_event_calls :: "reconciliation list"

definition call_manager ::
  "manager_call \<Rightarrow> ('w \<Rightarrow> (error + 'a) \<times> 'w) \<Rightarrow> 'w sys \<Rightarrow> (error + 'a) \<times> 'w sys" where
  "call_manager c method s =
     (case method (world s) of (r, w') \<Rightarrow> (r, s\<lparr>world := w', calls := calls s @ [c]\<rparr>))"

text \<open>
  \<^verbatim>\<open>RunnerScaler\<close>: its four attributes (\<open>reactive_config\<close> is whether
  \<^verbatim>\<open>_reactive_config is not None\<close>), and the two things it reaches outside itself:
  \<^verbatim>\<open>reactive_runner_manager.reconcile\<close> (not among the sources; it returns
  \<^verbatim>\<open>processes_diff\<close> and \<^verbatim>\<open>metric_stats\<close>) and the clock \<^verbatim>\<open>time.time()\<close>.
\<close>

record 'w runner_scaler =
  manager :: "'w runner_manager"
  reactive_config :: bool
  base_quantity :: int
  max_quantity :: int
  reactive_reconcile :: "int \<Rightarrow> 'w \<Rightarrow> (error + int \<times> issued_metric_events_stats) \<times> 'w"
  time_now :: "'w \<Rightarrow> real"

record reconcile_result =
  runner_diff :: int
  metric_stats :: issued_metric_events_stats

record reconcile_metric_data =
  start_timestamp :: real
  end_timestamp :: real
  data_metric_stats :: issued_metric_events_stats
  runner_list :: "runner_instance list"
  data_flavor :: string
  expected_runner_quantity :: int

text \<open>
  \<^verbatim>\<open>RunnerScaler._reconcile_non_reactive\<close>. The only exception the function handles is
  \<^verbatim>\<open>MissingServerConfigError\<close> from \<^verbatim>\<open>create_runners\<close>; every other one leaves the
  function at the call that raised it.
\<close>

definition reconcile_non_reactive ::
  "'w runner_manager \<Rightarrow> int \<Rightarrow> 'w sys \<Rightarrow> (error + reconcile_result) \<times> 'w sys" where
  "reconcile_non_reactive m expected_quantity s =
     (case call_manager Cleanup (manager_cleanup m) s of
        (Inl e, s1) \<Rightarrow> (Inl e, s1)
      | (Inr stats, s1) \<Rightarrow>
          (case call_manager GetRunners (manager_get_runners m) s1 of
             (Inl e, s2) \<Rightarrow> (Inl e, s2)
           | (Inr runners, s2) \<Rightarrow>
               (let diff = expected_quantity - int (length runners) in
                if diff > 0 then
                  (case call_manager (CreateRunners diff) (manager_create_runners m diff) s2 of
                     (Inl MissingServerConfigError, s3) \<Rightarrow>
                       (Inr \<lparr>runner_diff = diff, metric_stats = stats\<rparr>, s3)
                   | (Inl e, s3) \<Rightarrow> (Inl e, s3)
                   | (Inr ids, s3) \<Rightarrow> (Inr \<lparr>runner_diff = diff, metric_stats = stats\<rparr>, s3))
                else if diff < 0 then
                  (case call_manager (DeleteRunners (- diff)) (manager_delete_runners m (- diff)) s2 of
                     (Inl e, s3) \<Rightarrow> (Inl e, s3)
                   | (Inr delete_stats, s3) \<Rightarrow>
                       (Inr \<lparr>runner_diff = diff,
                             metric_stats = merge_stats delete_stats stats\<rparr>, s3))
                else (Inr \<lparr>runner_diff = diff, metric_stats = stats\<rparr>, s2))))"

text \<open>
  \<^verbatim>\<open>_issue_reconciliation_metric\<close>. The three comprehensions build Python sets of runner
  names, and \<^verbatim>\<open>len\<close> of a set is its cardinality. The second argument is the reading
  of \<^verbatim>\<open>time.time()\<close> for the event's timestamp.
\<close>

definition issue_reconciliation_metric ::
  "reconcile_metric_data \<Rightarrow> real \<Rightarrow> 'w sys \<Rightarrow> 'w sys" where
  "issue_reconciliation_metric d now s =
     (let idle = {name r | r. r \<in> set (runner_list d) \<and> github_state r = Some IDLE};
          offline_healthy = {name r | r. r \<in> set (runner_list d)
                               \<and> github_state r = Some OFFLINE \<and> health r = HEALTHY};
          available = idle \<union> offline_healthy;
          active = {name r | r. r \<in> set (runner_list d) \<and> github_state r = Some BUSY}
      in s\<lparr>issue_event_calls := issue_event_calls s @
            [\<lparr>timestamp = now,
              flavor = data_flavor d,
              crashed_runners = stats_get (data_metric_stats d) RunnerStart
                                  - stats_get (data_metric_stats d) RunnerStop,
              idle_runners = int (card available),
              active_runners = int (card active),
              expected_runners = expected_runner_quantity d,
              duration = end_timestamp d - start_timestamp d\<rparr>]\<rparr>)"

text \<open>
  The \<^verbatim>\<open>try\<close> block of \<^verbatim>\<open>RunnerScaler.reconcile\<close>: the reactive or the non-reactive
  branch, giving \<^verbatim>\<open>reconcile_diff\<close> and \<^verbatim>\<open>metric_stats\<close>.
\<close>

definition reconcile_try ::
  "'w runner_scaler \<Rightarrow> 'w sys \<Rightarrow> (error + int \<times> issued_metric_events_stats) \<times> 'w sys" where
  "reconcile_try sc s =
     (if reactive_config sc then
        call_manager (ReactiveReconcile (max_quantity sc))
          (reactive_reconcile sc (max_quantity sc)) s
      else
        (case reconcile_non_reactive (manager sc) (base_quantity sc) s of
           (Inl e, s1) \<Rightarrow> (Inl e, s1)
         | (Inr res, s1) \<Rightarrow> (Inr (runner_diff res, metric_stats res), s1)))"

text \<open>
  \<^verbatim>\<open>RunnerScaler.reconcile\<close>. \<open>metric_stats\<close> starts as the empty dictionary and is
  assigned only when the \<^verbatim>\<open>try\<close> block completes. \<^verbatim>\<open>except CloudError\<close> turns that
  exception into \<^verbatim>\<open>ReconcileError\<close>. The \<^verbatim>\<open>finally\<close> block runs on every path; an
  exception raised inside it (by \<^verbatim>\<open>get_runners\<close>) replaces the pending outcome, as
  in Python. \<^verbatim>\<open>_log_runners\<close> only logs.
\<close>

definition reconcile :: "'w runner_scaler \<Rightarrow> 'w sys \<Rightarrow> (error + int) \<times> 'w sys" where
  "reconcile sc s =
     (let start = time_now sc (world s) in
      case reconcile_try sc s of (body, s1) \<Rightarrow>
        (let stats = (case body of Inr (diff, st) \<Rightarrow> st | Inl e \<Rightarrow> Map.empty);
             pending = (case body of
                          Inr (diff, st) \<Rightarrow> Inr diff
                        | Inl CloudError \<Rightarrow> Inl ReconcileError
                        | Inl e \<Rightarrow> Inl e)
         in case call_manager GetRunners (manager_get_runners (manager sc)) s1 of
              (Inl e, s2) \<Rightarrow> (Inl e, s2)
            | (Inr runners, s2) \<Rightarrow>
                (pending,
                 issue_reconciliation_metric
                   \<lparr>start_timestamp = start,
                    end_timestamp = time_now sc (world s2),
                    data_metric_stats = stats,
                    runner_list = runners,
                    data_flavor = manager_name (manager sc),
                    expected_runner_quantity = base_quantity sc\<rparr>
                   (time_now sc (world s2)) s2)))"

text \<open>\<^verbatim>\<open>RunnerScaler.flush\<close>: the number of \<^verbatim>\<open>RunnerStop\<close> events of both calls.\<close>

definition flush :: "'w runner_scaler \<Rightarrow> flush_mode \<Rightarrow> 'w sys \<Rightarrow> (error + int) \<times> 'w sys" where
  "flush sc mode s =
     (case call_manager Cleanup (manager_cleanup (manager sc)) s of
        (Inl e, s1) \<Rightarrow> (Inl e, s1)
      | (Inr stats, s1) \<Rightarrow>
          (case call_manager (FlushRunners mode) (manager_flush_runners (manager sc) mode) s1 of
             (Inl e, s2) \<Rightarrow> (Inl e, s2)
           | (Inr delete_stats, s2) \<Rightarrow>
               (Inr (stats_get (merge_stats delete_stats stats) RunnerStop), s2)))"

section \<open>The HTTP control surface (http_server.py)\<close>

text \<open>
  The handler of \<^verbatim>\<open>POST /runner/flush\<close> builds a scaler for each request, with
  \<^verbatim>\<open>RunnerScaler.build(app_config, user)\<close>. \<^verbatim>\<open>build\<close> reads attributes of its second
  argument, and Python checks no type at the call: reading an attribute that the object
  does not have raises \<^verbatim>\<open>AttributeError\<close>. The second argument is therefore modelled
  as an object with a dictionary of attributes (the values are opaque texts).
\<close>

type_synonym py_object = "string \<rightharpoonup> string"

definition getattr :: "py_object \<Rightarrow> string \<Rightarrow> error + string" where
  "getattr obj attribute =
     (case obj attribute of None \<Rightarrow> Inl AttributeError | Some v \<Rightarrow> Inr v)"

text \<open>
  The application configuration, by the attributes that \<^verbatim>\<open>build\<close> reads on it
  (the class is not among the sources): \<open>app_name\<close> is \<^verbatim>\<open>name\<close>,
  \<open>combinations\<close> is \<^verbatim>\<open>non_reactive_configuration.combinations\<close>, and of a
  combination \<^verbatim>\<open>build\<close> reads \<^verbatim>\<open>image.name\<close>, \<^verbatim>\<open>image.labels\<close>,
  \<^verbatim>\<open>flavor.name\<close>, \<^verbatim>\<open>flavor.labels\<close> and \<^verbatim>\<open>base_virtual_machines\<close>; of the
  reactive configuration, \<^verbatim>\<open>queue\<close> and \<^verbatim>\<open>max_total_virtual_machines\<close>.
  \<^verbatim>\<open>GitHubConfiguration\<close> is that of configuration/github.py.
\<close>

record github_configuration =
  token :: string
  github_path :: string

record combination =
  image_name :: string
  image_labels :: "string list"
  flavor_name :: string
  flavor_labels :: "string list"
  base_virtual_machines :: int

record reactive_configuration =
  reactive_queue :: string
  max_total_virtual_machines :: int

record application_configuration =
  app_name :: string
  extra_labels :: "string list"
  github_config :: github_configuration
  service_config :: string
  combinations :: "combination list"
  app_reactive_configuration :: "reactive_configuration option"

text \<open>
  \<^verbatim>\<open>OpenStackServerConfig\<close> and \<^verbatim>\<open>OpenStackRunnerManagerConfig\<close>
  (openstack_runner_manager.py), and \<^verbatim>\<open>ReactiveProcessConfig\<close> with the fields that
  \<^verbatim>\<open>build\<close> sets.
\<close>

record openstack_server_config =
  server_image :: string
  server_flavor :: string
  server_network :: string

record openstack_runner_manager_config =
  name_prefix :: string
  credentials :: string
  server_config :: "openstack_server_config option"
  manager_service_config :: string

record reactive_process_config =
  process_queue :: string
  process_manager_name :: string
  process_github_configuration :: github_configuration
  process_cloud_runner_manager :: openstack_runner_manager_config
  process_github_token :: string
  process_supported_labels :: "string set"
  process_labels :: "string list"

text \<open>
  What \<^verbatim>\<open>build\<close> and the scaler it returns reach outside themselves.
  \<open>new_runner_manager\<close> is the construction
  \<^verbatim>\<open>RunnerManager(manager_name, github_configuration, cloud_runner_manager=OpenStackRunnerManager(config), labels)\<close>:
  the runner manager, or the exception of one of the two constructors.
  \<open>reactive_runner_manager_reconcile\<close> is \<^verbatim>\<open>reactive_runner_manager.reconcile\<close> with
  the runner manager and the reactive process configuration it is called with, \<open>clock\<close>
  is \<^verbatim>\<open>time.time()\<close>, and \<open>GITHUB_SELF_HOSTED_ARCH_LABELS\<close> is the constant of that
  name.
\<close>

record 'w build_env =
  new_runner_manager ::
    "string \<Rightarrow> github_configuration \<Rightarrow> openstack_runner_manager_config \<Rightarrow> string list
       \<Rightarrow> error + 'w runner_manager"
  reactive_runner_manager_reconcile ::
    "'w runner_manager \<Rightarrow> reactive_process_config option \<Rightarrow> int \<Rightarrow> 'w
       \<Rightarrow> (error + int \<times> issued_metric_events_stats) \<times> 'w"
  clock :: "'w \<Rightarrow> real"
  GITHUB_SELF_HOSTED_ARCH_LABELS :: "string set"

text \<open>
  The first part of \<^verbatim>\<open>RunnerScaler.build\<close>: \<^verbatim>\<open>labels\<close>, \<^verbatim>\<open>server_config\<close> and
  \<^verbatim>\<open>base_quantity\<close>. With a combination configured, the keyword arguments of
  \<^verbatim>\<open>OpenStackServerConfig\<close> are evaluated in order, the last being
  \<^verbatim>\<open>openstack_configuration.network\<close>. (\<^verbatim>\<open>labels += \<dots>\<close> extends the list that the
  configuration holds. The configuration is an argument of every request in the model,
  so a later request is modelled with the configuration it finds.)
\<close>

definition build_server_config ::
  "application_configuration \<Rightarrow> py_object
     \<Rightarrow> error + string list \<times> openstack_server_config option \<times> int" where
  "build_server_config application_configuration openstack_configuration =
     (case combinations application_configuration of
        [] \<Rightarrow> Inr (extra_labels application_configuration, None, 0)
      | combination # others \<Rightarrow>
          (case getattr openstack_configuration ''network'' of
             Inl e \<Rightarrow> Inl e
           | Inr openstack_network \<Rightarrow>
               Inr (extra_labels application_configuration
                      @ image_labels combination @ flavor_labels combination,
                    Some \<lparr>server_image = image_name combination,
                          server_flavor = flavor_name combination,
                          server_network = openstack_network\<rparr>,
                    base_virtual_machines combination)))"

text \<open>
  \<^verbatim>\<open>RunnerScaler.build\<close>. After the server configuration it reads
  \<^verbatim>\<open>openstack_configuration.vm_prefix\<close> and \<^verbatim>\<open>openstack_configuration.credentials\<close>,
  constructs the runner manager, and with a reactive configuration the reactive process
  configuration. An exception leaves \<^verbatim>\<open>build\<close> where it is raised.
\<close>

definition build ::
  "'w build_env \<Rightarrow> application_configuration \<Rightarrow> py_object \<Rightarrow> error + 'w runner_scaler" where
  "build env application_configuration openstack_configuration =
     (case build_server_config application_configuration openstack_configuration of
        Inl e \<Rightarrow> Inl e
      | Inr (runner_labels, server_cfg, base) \<Rightarrow>
          (case getattr openstack_configuration ''vm_prefix'' of
             Inl e \<Rightarrow> Inl e
           | Inr vm_prefix \<Rightarrow>
               (case getattr openstack_configuration ''credentials'' of
                  Inl e \<Rightarrow> Inl e
                | Inr openstack_credentials \<Rightarrow>
                    (let openstack_runner_manager_config =
                           \<lparr>name_prefix = vm_prefix,
                            credentials = openstack_credentials,
                            server_config = server_cfg,
                            manager_service_config = service_config application_configuration\<rparr>
                     in case new_runner_manager env (app_name application_configuration)
                               (github_config application_configuration)
                               openstack_runner_manager_config runner_labels of
                          Inl e \<Rightarrow> Inl e
                        | Inr runner_manager \<Rightarrow>
                            (let reactive_runner_config =
                                   (case app_reactive_configuration application_configuration of
                                      None \<Rightarrow> None
                                    | Some reactive \<Rightarrow>
                                        Some \<lparr>process_queue = reactive_queue reactive,
                                              process_manager_name = app_name application_configuration,
                                              process_github_configuration =
                                                github_config application_configuration,
                                              process_cloud_runner_manager =
                                                openstack_runner_manager_config,
                                              process_github_token =
                                                token (github_config application_configuration),
                                              process_supported_labels =
                                                set runner_labels
                                                  \<union> GITHUB_SELF_HOSTED_ARCH_LABELS env,
                                              process_labels = runner_labels\<rparr>);
                                 max_q =
                                   (case app_reactive_configuration application_configuration of
                                      None \<Rightarrow> 0
                                    | Some reactive \<Rightarrow> max_total_virtual_machines reactive)
                             in Inr \<lparr>manager = runner_manager,
                                     reactive_config = (reactive_runner_config \<noteq> None),
                                     base_quantity = base,
                                     max_quantity = max_q,
                                     reactive_reconcile =
                                       reactive_runner_manager_reconcile env runner_manager
                                         reactive_runner_config,
                                     time_now = clock env\<rparr>)))))"

text \<open>
  \<^verbatim>\<open>flush_runner\<close>, the handler of \<^verbatim>\<open>POST /runner/flush\<close>. The first argument is whether the
  module's \<^verbatim>\<open>_lock\<close> is set (\<^verbatim>\<open>get_lock\<close> raises \<^verbatim>\<open>LockError\<close> when it is not).
  \<open>app_config\<close> is \<^verbatim>\<open>app.config[APP_CONFIG_NAME]\<close>, taken to be set
  (\<^verbatim>\<open>start_http_server\<close> sets it). \<open>user\<close> is the object that
  \<^verbatim>\<open>UserInfo(getpass.getuser(), grp.getgrgid(os.getgid()))\<close> constructs: the class
  \<^verbatim>\<open>UserInfo\<close> is not among the sources, so the object is a parameter.
  \<open>flush_busy_str\<close> is what \<^verbatim>\<open>request.args.get("flush-busy")\<close> returns: \<open>None\<close>
  when the query has no such parameter. Waiting for a lock that another thread holds is
  not modelled: the handler is modelled from the moment it holds the lock. A handler that
  raises leaves the response to Flask, which answers with status 500.
\<close>

definition flush_runner ::
  "bool \<Rightarrow> 'w build_env \<Rightarrow> application_configuration \<Rightarrow> py_object \<Rightarrow> string option \<Rightarrow> 'w sys
     \<Rightarrow> (error + string \<times> nat) \<times> 'w sys" where
  "flush_runner lock_configured env app_config user flush_busy_str s =
     (let flush_busy = (flush_busy_str = Some ''True'' \<or> flush_busy_str = Some ''true'') in
      if \<not> lock_configured then (Inl LockError, s)
      else
        (case build env app_config user of
           Inl e \<Rightarrow> (Inl e, s)
         | Inr runner_scaler \<Rightarrow>
             (case flush runner_scaler (if flush_busy then FLUSH_BUSY else FLUSH_IDLE) s of
                (Inl e, s1) \<Rightarrow> (Inl e, s1)
              | (Inr num_flushed, s1) \<Rightarrow> (Inr ('''', 204), s1))))"

subsection \<open>Notions used to state the properties of the scaler\<close>

text \<open>
  The call on the runner manager that a difference of \<open>diff\<close> runners asks for: a
  creation of \<open>diff\<close> runners when it is positive, a deletion of \<open>- diff\<close> when it is
  negative, nothing when it is zero.
\<close>

definition next_call :: "int \<Rightarrow> manager_call list" where
  "next_call diff =
     (if diff > 0 then [CreateRunners diff]
      else if diff < 0 then [DeleteRunners (- diff)] else [])"

text \<open>A runner is available when it is idle, or offline and healthy; it is active when busy.\<close>

definition is_available :: "runner_instance \<Rightarrow> bool" where
  "is_available r \<longleftrightarrow>
     github_state r = Some IDLE \<or> (github_state r = Some OFFLINE \<and> health r = HEALTHY)"

definition is_busy :: "runner_instance \<Rightarrow> bool" where
  "is_busy r \<longleftrightarrow> github_state r = Some BUSY"

text \<open>
  \<^verbatim>\<open>RunnerStart\<close> events minus \<^verbatim>\<open>RunnerStop\<close> events in the statistics that the
  \<^verbatim>\<open>try\<close> block of \<^verbatim>\<open>reconcile\<close> handed over: those of the branch when it completed,
  none when it raised.
\<close>

definition crashed_of :: "error + int \<times> issued_metric_events_stats \<Rightarrow> int" where
  "crashed_of body =
     (case body of
        Inr (diff, stats) \<Rightarrow> stats_get stats RunnerStart - stats_get stats RunnerStop
      | Inl e \<Rightarrow> 0)"

text \<open>The flush mode that a value of the \<^verbatim>\<open>flush-busy\<close> query parameter asks for.\<close>

definition requested_flush_mode :: "string option \<Rightarrow> flush_mode" where
  "requested_flush_mode flush_busy_str =
     (if flush_busy_str = Some ''True'' \<or> flush_busy_str = Some ''true''
      then FLUSH_BUSY else FLUSH_IDLE)"

subsection \<open>A concrete runner manager\<close>

text \<open>
  A small runner manager to run the scaler on: the world is the list of runners.
  \<open>cleanup\<close> removes the unhealthy runners and reports one \<^verbatim>\<open>RunnerStop\<close> event for
  each, \<open>create_runners\<close> appends idle runners, \<open>delete_runners\<close> removes the first
  ones, \<open>flush_runners\<close> keeps the busy runners unless they are to be flushed too.
\<close>

definition fleet_manager :: "runner_instance list runner_manager" where
  "fleet_manager =
     \<lparr>manager_name = ''small'',
      manager_cleanup = (\<lambda>w.
        (Inr [RunnerStop \<mapsto> int (length (filter (\<lambda>r. health r = UNHEALTHY) w))],
         filter (\<lambda>r. health r \<noteq> UNHEALTHY) w)),
      manager_get_runners = (\<lambda>w. (Inr w, w)),
      manager_create_runners = (\<lambda>n w.
        (Inr (replicate (nat n) ''new''),
         w @ replicate (nat n) \<lparr>name = ''new'', github_state = Some IDLE, health = HEALTHY\<rparr>)),
      manager_delete_runners = (\<lambda>n w. (Inr [RunnerStop \<mapsto> n], drop (nat n) w)),
      manager_flush_runners = (\<lambda>mode w.
        (Inr Map.empty, if mode = FLUSH_BUSY then [] else filter is_busy w))\<rparr>"

definition fleet_scaler :: "int \<Rightarrow> runner_instance list runner_scaler" where
  "fleet_scaler base =
     \<lparr>manager = fleet_manager, reactive_config = False, base_quantity = base,
      max_quantity = 0, reactive_reconcile = (\<lambda>n w. (Inl OtherError, w)),
      time_now = (\<lambda>w. 0)\<rparr>"

definition start_sys :: "'w \<Rightarrow> 'w sys" where
  "start_sys w = \<lparr>world = w, calls = [], issue_event_calls = []\<rparr>"

definition runner_a :: runner_instance where
  "runner_a = \<lparr>name = ''a'', github_state = Some IDLE, health = HEALTHY\<rparr>"

definition runner_b :: runner_instance where
  "runner_b = \<lparr>name = ''b'', github_state = Some BUSY, health = HEALTHY\<rparr>"

definition runner_c :: runner_instance where
  "runner_c = \<lparr>name = ''c'', github_state = Some OFFLINE, health = HEALTHY\<rparr>"

definition runner_d :: runner_instance where
  "runner_d = \<lparr>name = ''d'', github_state = Some OFFLINE, health = UNHEALTHY\<rparr>"

definition runner_e :: runner_instance where
  "runner_e = \<lparr>name = ''e'', github_state = None, health = UNHEALTHY\<rparr>"

text \<open>A scaler whose cloud is unreachable: every call on the runner manager raises.\<close>

definition cloud_down_scaler :: "unit runner_scaler" where
  "cloud_down_scaler =
     \<lparr>manager =
        \<lparr>manager_name = ''small'',
         manager_cleanup = (\<lambda>w. (Inl CloudError, w)),
         manager_get_runners = (\<lambda>w. (Inl CloudError, w)),
         manager_create_runners = (\<lambda>n w. (Inl CloudError, w)),
         manager_delete_runners = (\<lambda>n w. (Inl CloudError, w)),
         manager_flush_runners = (\<lambda>mode w. (Inl CloudError, w))\<rparr>,
      reactive_config = False, base_quantity = 1, max_quantity = 0,
      reactive_reconcile = (\<lambda>n w. (Inl OtherError, w)), time_now = (\<lambda>w. 0)\<rparr>"

text \<open>A scaler whose runner manager cleans up and lists runners, but cannot create any.\<close>

definition no_create_scaler :: "runner_instance list runner_scaler" where
  "no_create_scaler =
     (fleet_scaler 1)\<lparr>manager :=
        fleet_manager\<lparr>manager_create_runners := (\<lambda>n w. (Inl CloudError, w))\<rparr>\<rparr>"

subsection \<open>A concrete application\<close>

text \<open>
  An application configuration with one combination and no reactive configuration, and
  collaborators whose runner manager is the small one above.
\<close>

definition demo_app_config :: application_configuration where
  "demo_app_config =
     \<lparr>app_name = ''small'',
      extra_labels = [''self-hosted''],
      github_config = \<lparr>token = ''secret'', github_path = ''org''\<rparr>,
      service_config = ''services'',
      combinations =
        [\<lparr>image_name = ''jammy'', image_labels = [''jammy''],
          flavor_name = ''m1.small'', flavor_labels = [''small''],
          base_virtual_machines = 3\<rparr>],
      app_reactive_configuration = None\<rparr>"

definition fleet_build_env :: "runner_instance list build_env" where
  "fleet_build_env =
     \<lparr>new_runner_manager = (\<lambda>manager_nm github cfg runner_labels. Inr fleet_manager),
      reactive_runner_manager_reconcile = (\<lambda>m cfg n w. (Inl OtherError, w)),
      clock = (\<lambda>w. 0),
      GITHUB_SELF_HOSTED_ARCH_LABELS = {''x64'', ''arm64''}\<rparr>"

text \<open>
  Two objects that may reach \<^verbatim>\<open>build\<close> as its second argument. The first is what the
  handler constructs, from the name of a user and a group: an object with these two
  attributes. The second has the three attributes of an OpenStack configuration that
  \<^verbatim>\<open>build\<close> reads.
\<close>

definition user_info :: "string \<Rightarrow> string \<Rightarrow> py_object" where
  "user_info user_name user_group = [''user'' \<mapsto> user_name, ''group'' \<mapsto> user_group]"

definition openstack_configuration_object :: py_object where
  "openstack_configuration_object =
     [''vm_prefix'' \<mapsto> ''unit-0'', ''network'' \<mapsto> ''external'', ''credentials'' \<mapsto> ''clouds.yaml'']"

section \<open>The reactive consumer (reactive/consumer.py)\<close>

definition END_PROCESSING_PAYLOAD :: string where
  "END_PROCESSING_PAYLOAD = ''__END__''"

text \<open>
  \<^verbatim>\<open>JobDetails\<close>: \<open>labels\<close> is a Python set of strings, \<open>url\<close> the job URL.
  A label is a Python \<^verbatim>\<open>str\<close>, a sequence of Unicode code points. The consumer does
  one thing with a label, it calls \<^verbatim>\<open>str.lower()\<close> on it, so the type of labels is
  left open (the type variable \<open>'l\<close>) and \<^verbatim>\<open>str.lower\<close> is a function on it.
\<close>

record 'l job_details =
  labels :: "'l set"
  url :: string

text \<open>
  A message of the queue. \<open>settle_raises\<close> says whether the broker fails when this
  message is acknowledged or rejected (\<^verbatim>\<open>msg.ack()\<close> and \<^verbatim>\<open>msg.reject()\<close> then raise
  \<^verbatim>\<open>KombuError\<close>). What \<^verbatim>\<open>simple_queue.get(block=True)\<close> gives is a delivery: a message,
  or a \<^verbatim>\<open>KombuError\<close>.
\<close>

record message =
  delivery_tag :: nat
  payload :: string
  settle_raises :: bool

datatype delivery = Delivered message | GetRaises

text \<open>
  What the consumer does to the outside, in order: acknowledging a message, rejecting it
  (with the \<^verbatim>\<open>requeue\<close> flag), asking the platform whether the job at a URL has been
  picked up (with the answer), creating one runner, sleeping.
\<close>

datatype consumer_event =
    MsgAck message
  | MsgReject message bool
  | CheckJob string "error + bool"
  | SpawnCreateRunners
  | SleepSeconds nat

text \<open>
  The collaborators of \<^verbatim>\<open>consume\<close>. \<open>parse_raw\<close> is pydantic's
  \<^verbatim>\<open>JobDetails.parse_raw\<close> with the validator of the class: \<open>None\<close> when it raises
  \<^verbatim>\<open>ValidationError\<close>. \<open>platform_check_job_been_picked_up n url\<close> is what the \<open>n\<close>-th
  call (from 0) of \<^verbatim>\<open>platform_provider.check_job_been_picked_up\<close> in this process gives
  for \<open>url\<close>: an answer, or an exception such as \<^verbatim>\<open>PlatformApiError\<close>.
  \<open>runner_manager_create_runners\<close> is what
  \<^verbatim>\<open>runner_manager.create_runners(1, metadata=metadata, reactive=True)\<close> gives: the list of
  instance ids, or an exception (\<^verbatim>\<open>consume\<close> makes this call at most once).
  \<open>str_lower\<close> is the built-in \<^verbatim>\<open>str.lower\<close> of Python, which lower-cases by the
  Unicode character tables: the tables are not written out, the function is a parameter,
  and what is proved holds whatever it maps a label to.
\<close>

record 'l consumer_env =
  parse_raw :: "string \<Rightarrow> 'l job_details option"
  supported_labels :: "'l set"
  str_lower :: "'l \<Rightarrow> 'l"
  platform_check_job_been_picked_up :: "nat \<Rightarrow> string \<Rightarrow> error + bool"
  runner_manager_create_runners :: "error + string list"

record consumer_state =
  trace :: "consumer_event list"
  checks_made :: nat

definition msg_ack :: "message \<Rightarrow> consumer_state \<Rightarrow> (error + unit) \<times> consumer_state" where
  "msg_ack msg s =
     (if settle_raises msg then Inl KombuError else Inr (),
      s\<lparr>trace := trace s @ [MsgAck msg]\<rparr>)"

definition msg_reject ::
  "message \<Rightarrow> bool \<Rightarrow> consumer_state \<Rightarrow> (error + unit) \<times> consumer_state" where
  "msg_reject msg requeue s =
     (if settle_raises msg then Inl KombuError else Inr (),
      s\<lparr>trace := trace s @ [MsgReject msg requeue]\<rparr>)"

definition check_job_been_picked_up ::
  "'l consumer_env \<Rightarrow> string \<Rightarrow> consumer_state \<Rightarrow> (error + bool) \<times> consumer_state" where
  "check_job_been_picked_up env job_url s =
     (let answer = platform_check_job_been_picked_up env (checks_made s) job_url in
      (answer, s\<lparr>trace := trace s @ [CheckJob job_url answer],
                 checks_made := Suc (checks_made s)\<rparr>))"

text \<open>
  \<^verbatim>\<open>_parse_job_details\<close>: on \<^verbatim>\<open>ValidationError\<close> the message is rejected without requeue
  and \<^verbatim>\<open>JobError\<close> is raised.
\<close>

definition parse_job_details ::
  "'l consumer_env \<Rightarrow> message \<Rightarrow> consumer_state \<Rightarrow> (error + 'l job_details) \<times> consumer_state" where
  "parse_job_details env msg s =
     (case parse_raw env (payload msg) of
        None \<Rightarrow>
          (case msg_reject msg False s of
             (Inl e, s1) \<Rightarrow> (Inl e, s1)
           | (Inr u, s1) \<Rightarrow> (Inl JobError, s1))
      | Some details \<Rightarrow> (Inr details, s))"

text \<open>
  \<^verbatim>\<open>_validate_labels\<close>:
  \<^verbatim>\<open>{label.lower() for label in labels} <= {label.lower() for label in supported_labels}\<close>.
  The first argument is \<^verbatim>\<open>str.lower\<close>.
\<close>

definition validate_labels :: "('l \<Rightarrow> 'l) \<Rightarrow> 'l set \<Rightarrow> 'l set \<Rightarrow> bool" where
  "validate_labels lower_of ls supported \<longleftrightarrow> lower_of ` ls \<subseteq> lower_of ` supported"

text \<open>
  The \<^verbatim>\<open>for _ in range(10)\<close> loop of \<^verbatim>\<open>_spawn_runner\<close> with its \<^verbatim>\<open>else\<close> clause; the
  numeric argument counts the iterations left.
\<close>

fun poll_picked_up ::
  "'l consumer_env \<Rightarrow> string \<Rightarrow> message \<Rightarrow> nat \<Rightarrow> consumer_state
     \<Rightarrow> (error + unit) \<times> consumer_state" where
  "poll_picked_up env job_url msg 0 s = msg_reject msg True s"
| "poll_picked_up env job_url msg (Suc n) s =
     (case check_job_been_picked_up env job_url s of
        (Inl e, s1) \<Rightarrow> (Inl e, s1)
      | (Inr True, s1) \<Rightarrow> msg_ack msg s1
      | (Inr False, s1) \<Rightarrow>
          poll_picked_up env job_url msg n (s1\<lparr>trace := trace s1 @ [SleepSeconds 30]\<rparr>))"

text \<open>\<^verbatim>\<open>_spawn_runner\<close>.\<close>

definition spawn_runner ::
  "'l consumer_env \<Rightarrow> string \<Rightarrow> message \<Rightarrow> consumer_state \<Rightarrow> (error + unit) \<times> consumer_state" where
  "spawn_runner env job_url msg s =
     (let s1 = s\<lparr>trace := trace s @ [SpawnCreateRunners]\<rparr> in
      case runner_manager_create_runners env of
        Inl e \<Rightarrow> (Inl e, s1)
      | Inr instance_ids \<Rightarrow>
          if instance_ids = [] then msg_reject msg True s1
          else poll_picked_up env job_url msg 10 s1)"

text \<open>
  The body of the \<^verbatim>\<open>while True\<close> loop of \<^verbatim>\<open>consume\<close>, for the message that
  \<^verbatim>\<open>get\<close> delivered: it ends in \<^verbatim>\<open>continue\<close>, in \<^verbatim>\<open>break\<close>, or in an exception.
\<close>

datatype step = Continue | Break | Raise error

definition consume_body ::
  "'l consumer_env \<Rightarrow> message \<Rightarrow> consumer_state \<Rightarrow> step \<times> consumer_state" where
  "consume_body env msg s =
     (if payload msg = END_PROCESSING_PAYLOAD then
        (case msg_ack msg s of
           (Inl e, s1) \<Rightarrow> (Raise e, s1)
         | (Inr u, s1) \<Rightarrow> (Break, s1))
      else
        (case parse_job_details env msg s of
           (Inl e, s1) \<Rightarrow> (Raise e, s1)
         | (Inr details, s1) \<Rightarrow>
             if \<not> validate_labels (str_lower env) (labels details) (supported_labels env) then
               (case msg_reject msg False s1 of
                  (Inl e, s2) \<Rightarrow> (Raise e, s2)
                | (Inr u, s2) \<Rightarrow> (Continue, s2))
             else
               (case check_job_been_picked_up env (url details) s1 of
                  (Inl e, s2) \<Rightarrow> (Raise e, s2)
                | (Inr True, s2) \<Rightarrow>
                    (case msg_ack msg s2 of
                       (Inl e, s3) \<Rightarrow> (Raise e, s3)
                     | (Inr u, s3) \<Rightarrow> (Continue, s3))
                | (Inr False, s2) \<Rightarrow>
                    (case spawn_runner env (url details) msg s2 of
                       (Inl e, s3) \<Rightarrow> (Raise e, s3)
                     | (Inr u, s3) \<Rightarrow> (Break, s3)))))"

text \<open>
  How a call of \<^verbatim>\<open>consume\<close> ends: it returns, it raises, or it waits for ever in
  \<^verbatim>\<open>get(block=True)\<close> on a queue that delivers nothing more.
\<close>

datatype consume_outcome = Finished | Failed error | Blocked

text \<open>
  The \<^verbatim>\<open>while True\<close> loop over the deliveries of the queue, in the order of delivery.
\<close>

fun consume_loop ::
  "'l consumer_env \<Rightarrow> delivery list \<Rightarrow> consumer_state \<Rightarrow> consume_outcome \<times> consumer_state" where
  "consume_loop env [] s = (Blocked, s)"
| "consume_loop env (GetRaises # queue) s = (Failed KombuError, s)"
| "consume_loop env (Delivered msg # queue) s =
     (case consume_body env msg s of
        (Continue, s1) \<Rightarrow> consume_loop env queue s1
      | (Break, s1) \<Rightarrow> (Finished, s1)
      | (Raise e, s1) \<Rightarrow> (Failed e, s1))"

text \<open>
  \<^verbatim>\<open>consume\<close>, from the point where the connection and the queue are open:
  \<^verbatim>\<open>except KombuError\<close> turns that exception into \<^verbatim>\<open>QueueError\<close>. The process starts
  with an empty trace.
\<close>

definition consume :: "'l consumer_env \<Rightarrow> delivery list \<Rightarrow> consume_outcome \<times> consumer_state" where
  "consume env queue =
     (case consume_loop env queue \<lparr>trace = [], checks_made = 0\<rparr> of
        (Failed KombuError, s) \<Rightarrow> (Failed QueueError, s)
      | (outcome, s) \<Rightarrow> (outcome, s))"

subsection \<open>Notions used to state the properties of the consumer\<close>

text \<open>\<open>k\<close> polls that each found the job not picked up, each followed by its sleep.\<close>

definition failed_polls :: "string \<Rightarrow> nat \<Rightarrow> consumer_event list" where
  "failed_polls job_url k = concat (replicate k [CheckJob job_url (Inr False), SleepSeconds 30])"

fun is_check :: "consumer_event \<Rightarrow> bool" where
  "is_check (CheckJob job_url answer) = True"
| "is_check _ = False"

text \<open>
  Every acknowledgement in a trace is of the sentinel, or comes right after the platform
  answered that the job of the acknowledged message has been picked up.
\<close>

definition acks_justified :: "'l consumer_env \<Rightarrow> consumer_event list \<Rightarrow> bool" where
  "acks_justified env tr \<longleftrightarrow>
     (\<forall>before msg after. tr = before @ MsgAck msg # after \<longrightarrow>
        payload msg = END_PROCESSING_PAYLOAD
        \<or> (\<exists>details. parse_raw env (payload msg) = Some details
              \<and> before \<noteq> [] \<and> last before = CheckJob (url details) (Inr True)))"

subsection \<open>A concrete consumer\<close>

text \<open>
  What \<^verbatim>\<open>str.lower()\<close> gives on a label of ASCII characters: the letters \<open>A\<close> to
  \<open>Z\<close> map to \<open>a\<close> to \<open>z\<close>, every other ASCII character to itself. It is used
  for the labels of the concrete consumer below, which are ASCII, and nowhere else.
\<close>

definition ascii_lower_char :: "char \<Rightarrow> char" where
  "ascii_lower_char c =
     (case map_of (zip ''ABCDEFGHIJKLMNOPQRSTUVWXYZ'' ''abcdefghijklmnopqrstuvwxyz'') c of
        Some l \<Rightarrow> l
      | None \<Rightarrow> c)"

definition ascii_lower :: "string \<Rightarrow> string" where
  "ascii_lower label = map ascii_lower_char label"

text \<open>
  A parser that knows two payloads (they stand for the JSON texts of two jobs), a manager
  that supports the label \<open>x64\<close>, a platform that reports the job picked up from its
  third answer on, and a runner manager that creates the runner.
\<close>

definition demo_env :: "string consumer_env" where
  "demo_env =
     \<lparr>parse_raw = (\<lambda>p.
        if p = ''job 99 for X64''
          then Some \<lparr>labels = {''X64''}, url = ''https://h/jobs/99''\<rparr>
        else if p = ''job 7 for arm64''
          then Some \<lparr>labels = {''arm64''}, url = ''https://h/jobs/7''\<rparr>
        else None),
      supported_labels = {''x64'', ''self-hosted''},
      str_lower = ascii_lower,
      platform_check_job_been_picked_up = (\<lambda>n job_url. Inr (2 \<le> n)),
      runner_manager_create_runners = Inr [''unit-0-r-abc'']\<rparr>"

definition job_msg :: message where
  "job_msg = \<lparr>delivery_tag = 1,
     payload = ''job 99 for X64'', settle_raises = False\<rparr>"

definition arm_msg :: message where
  "arm_msg = \<lparr>delivery_tag = 2,
     payload = ''job 7 for arm64'', settle_raises = False\<rparr>"

definition poison_msg :: message where
  "poison_msg = \<lparr>delivery_tag = 3, payload = ''not json'', settle_raises = False\<rparr>"

definition end_msg :: message where
  "end_msg = \<lparr>delivery_tag = 4, payload = ''__END__'', settle_raises = False\<rparr>"

text \<open>
  A consumer for a job whose one label is the letter E with an acute accent in upper case
  (U+00C9), where the supported label is the same letter in lower case (U+00E9).
  \<^verbatim>\<open>str.lower()\<close> maps the first label to the second and leaves the second as it is:
  that is all \<open>str_lower\<close> is asked here.
\<close>

definition accent_env :: "string consumer_env" where
  "accent_env =
     \<lparr>parse_raw = (\<lambda>p.
        if p = ''job 5 with an accent''
          then Some \<lparr>labels = {[CHR 0xC9]}, url = ''https://h/jobs/5''\<rparr>
        else None),
      supported_labels = {[CHR 0xE9]},
      str_lower = (\<lambda>label. if label = [CHR 0xC9] then [CHR 0xE9] else label),
      platform_check_job_been_picked_up = (\<lambda>n job_url. Inr True),
      runner_manager_create_runners = Inr [''unit-0-r-abc'']\<rparr>"

definition accent_msg :: message where
  "accent_msg = \<lparr>delivery_tag = 5, payload = ''job 5 with an accent'', settle_raises = False\<rparr>"

section \<open>The OpenStack runner manager (openstack_cloud/openstack_runner_manager.py)\<close>

text \<open>
  The fields of \<^verbatim>\<open>OpenstackInstance\<close> that \<^verbatim>\<open>cleanup\<close> reads: \<open>instance_id\<close> is the name
  of the runner, \<open>created_at\<close> its creation time.
\<close>

record openstack_instance =
  instance_id :: string
  server_id :: string
  created_at :: nat

text \<open>
  The collaborators of the manager, none of them among the sources, as parameters.
  \<open>get_instances\<close> is \<^verbatim>\<open>OpenstackCloud.get_instances()\<close>, a list of instances or an
  exception. \<open>check_runner\<close> is \<^verbatim>\<open>health_checks.check_runner\<close>: an answer, or \<open>None\<close>
  when it raises \<^verbatim>\<open>OpenstackHealthCheckError\<close>. \<open>get_ssh_connection\<close> tells whether
  \<^verbatim>\<open>OpenstackCloud.get_ssh_connection\<close> returns (it raises \<^verbatim>\<open>SSHError\<close> otherwise).
  \<open>pull_runner_metrics\<close> and \<open>to_runner_metrics\<close> are the two steps of metric
  extraction; \<open>'p\<close> is \<^verbatim>\<open>PulledMetrics\<close>, with \<open>empty_pulled_metrics\<close> for
  \<^verbatim>\<open>PulledMetrics()\<close>, and \<open>'m\<close> is \<^verbatim>\<open>RunnerMetrics\<close>. Whether the removal script
  fails (\<^verbatim>\<open>_GithubRunnerRemoveError\<close>) and whether \<^verbatim>\<open>delete_instance\<close> fails
  (\<^verbatim>\<open>OpenStackError\<close>) changes nothing in what \<^verbatim>\<open>cleanup\<close> does next: both exceptions
  are caught and logged where they are raised, so neither outcome is a parameter.
\<close>

record ('p, 'm) openstack_env =
  get_instances :: "error + openstack_instance list"
  check_runner :: "openstack_instance \<Rightarrow> bool option"
  get_ssh_connection :: "openstack_instance \<Rightarrow> bool"
  pull_runner_metrics :: "openstack_instance \<Rightarrow> 'p"
  empty_pulled_metrics :: 'p
  to_runner_metrics :: "'p \<Rightarrow> string \<Rightarrow> nat \<Rightarrow> 'm option"

text \<open>The calls that act on a runner or on the cloud, as \<^verbatim>\<open>cleanup\<close> makes them.\<close>

datatype cloud_call =
    SshConnect string
  | PullRunnerMetrics string
  | RunRemovalScript string
  | DeleteInstance string
  | CloudCleanup

text \<open>\<^verbatim>\<open>_RunnerHealth\<close>.\<close>

record runner_health =
  healthy :: "openstack_instance list"
  unhealthy :: "openstack_instance list"
  unknown :: "openstack_instance list"

text \<open>
  The loop of \<^verbatim>\<open>_get_runners_health\<close>: a runner whose check returns true is appended to
  \<open>healthy\<close>, one whose check returns false to \<open>unhealthy\<close>, one whose check raises
  \<^verbatim>\<open>OpenstackHealthCheckError\<close> to \<open>unknown\<close>.
\<close>

fun sort_by_health ::
  "('p, 'm) openstack_env \<Rightarrow> openstack_instance list \<Rightarrow> runner_health \<Rightarrow> runner_health" where
  "sort_by_health env [] acc = acc"
| "sort_by_health env (runner # instances) acc =
     sort_by_health env instances
       (case check_runner env runner of
          Some True \<Rightarrow> acc\<lparr>healthy := healthy acc @ [runner]\<rparr>
        | Some False \<Rightarrow> acc\<lparr>unhealthy := unhealthy acc @ [runner]\<rparr>
        | None \<Rightarrow> acc\<lparr>unknown := unknown acc @ [runner]\<rparr>)"

definition get_runners_health :: "('p, 'm) openstack_env \<Rightarrow> error + runner_health" where
  "get_runners_health env =
     (case get_instances env of
        Inl e \<Rightarrow> Inl e
      | Inr instances \<Rightarrow>
          Inr (sort_by_health env instances \<lparr>healthy = [], unhealthy = [], unknown = []\<rparr>))"

text \<open>
  \<^verbatim>\<open>_delete_runner\<close> (the private method that takes the instance, which \<^verbatim>\<open>cleanup\<close>
  calls): metrics and the removal script over SSH when the connection opens, then
  \<^verbatim>\<open>delete_instance\<close> in every case.
\<close>

definition delete_runner ::
  "('p, 'm) openstack_env \<Rightarrow> openstack_instance \<Rightarrow> cloud_call list \<Rightarrow> 'p \<times> cloud_call list" where
  "delete_runner env instance cs =
     (if get_ssh_connection env instance then
        (pull_runner_metrics env instance,
         cs @ [SshConnect (instance_id instance), PullRunnerMetrics (instance_id instance),
                RunRemovalScript (instance_id instance), DeleteInstance (instance_id instance)])
      else
        (empty_pulled_metrics env,
         cs @ [SshConnect (instance_id instance), DeleteInstance (instance_id instance)]))"

text \<open>The \<^verbatim>\<open>for runner in runners.unhealthy\<close> loop of \<^verbatim>\<open>cleanup\<close>.\<close>

fun delete_unhealthy ::
  "('p, 'm) openstack_env \<Rightarrow> openstack_instance list \<Rightarrow> 'm list \<Rightarrow> cloud_call list
     \<Rightarrow> 'm list \<times> cloud_call list" where
  "delete_unhealthy env [] extracted cs = (extracted, cs)"
| "delete_unhealthy env (runner # runners) extracted cs =
     (case delete_runner env runner cs of
        (pulled_metrics, cs1) \<Rightarrow>
          (case to_runner_metrics env pulled_metrics (instance_id runner) (created_at runner) of
             None \<Rightarrow> delete_unhealthy env runners extracted cs1
           | Some runner_metric \<Rightarrow>
               delete_unhealthy env runners (extracted @ [runner_metric]) cs1))"

text \<open>\<^verbatim>\<open>OpenStackRunnerManager.cleanup\<close>.\<close>

definition cleanup ::
  "('p, 'm) openstack_env \<Rightarrow> cloud_call list \<Rightarrow> (error + 'm list) \<times> cloud_call list" where
  "cleanup env cs =
     (case get_runners_health env of
        Inl e \<Rightarrow> (Inl e, cs)
      | Inr runners \<Rightarrow>
          (case delete_unhealthy env (unhealthy runners) [] cs of
             (extracted_runner_metrics, cs1) \<Rightarrow>
               (Inr extracted_runner_metrics, cs1 @ [CloudCleanup])))"

subsection \<open>Notions used to state the properties of cleanup\<close>

text \<open>
  The health verdict of a runner, as \<^verbatim>\<open>HealthState.from_value\<close> reads the outcome of its
  health check in \<^verbatim>\<open>get_runners\<close>.
\<close>

definition verdict :: "('p, 'm) openstack_env \<Rightarrow> openstack_instance \<Rightarrow> health_state" where
  "verdict env runner =
     (case check_runner env runner of
        Some True \<Rightarrow> HEALTHY
      | Some False \<Rightarrow> UNHEALTHY
      | None \<Rightarrow> UNKNOWN)"

text \<open>The runners that a sequence of calls deletes, in order.\<close>

fun deleted :: "cloud_call list \<Rightarrow> string list" where
  "deleted [] = []"
| "deleted (DeleteInstance i # cs) = i # deleted cs"
| "deleted (_ # cs) = deleted cs"

subsection \<open>A concrete cloud\<close>

text \<open>
  Three runners: the health check passes on the first, fails on the second and raises on
  the third. SSH works on none of them.
\<close>

definition three_runners :: "openstack_instance list" where
  "three_runners =
     [\<lparr>instance_id = ''test-healthy0'', server_id = ''s0'', created_at = 0\<rparr>,
      \<lparr>instance_id = ''test-unhealthy0'', server_id = ''s1'', created_at = 0\<rparr>,
      \<lparr>instance_id = ''test-unknown0'', server_id = ''s2'', created_at = 0\<rparr>]"

definition three_runner_cloud :: "(unit, unit) openstack_env" where
  "three_runner_cloud =
     \<lparr>get_instances = Inr three_runners,
      check_runner = (\<lambda>r. if instance_id r = ''test-healthy0'' then Some True
                            else if instance_id r = ''test-unhealthy0'' then Some False
                            else None),
      get_ssh_connection = (\<lambda>r. False),
      pull_runner_metrics = (\<lambda>r. ()),
      empty_pulled_metrics = (),
      to_runner_metrics = (\<lambda>p i t. None)\<rparr>"

section \<open>Creation of runners by the runner lifecycle manager\<close>

text \<open>
  Modelled from the spec: \<^verbatim>\<open>RunnerManager.create_runners\<close> with its readiness wait.
  The module manager/runner_manager.py is missing from the sources; its unit tests and
  its callers are there. Every definition of this section follows section 4.4 of the
  specification, step by step. (\<^verbatim>\<open>OpenStackRunnerManager.create_runner\<close>, which is among
  the sources, is the cloud layer that step 4 calls to launch the machine; it is the
  parameter \<open>launch\<close> below.)
\<close>

text \<open>
  Modelled from the spec: \<^verbatim>\<open>PlatformRunnerHealth\<close> (section 3), without the identity.
\<close>

record platform_runner_health =
  online :: bool
  busy :: bool
  deletable :: bool

text \<open>
  Modelled from the spec: the collaborators of \<^verbatim>\<open>create_runners\<close> (sections 4.2 and
  4.3), which the missing module calls. \<open>new_instance_id i\<close> is the instance id
  generated for the \<open>i\<close>-th runner of the call. \<open>issue_credential\<close> and \<open>launch\<close> tell
  whether the platform issues the credential and whether the cloud launches the machine.
  \<open>get_runner_health identity n\<close> is what the \<open>n\<close>-th poll (from 0) for that runner
  gives, \<open>None\<close> when the platform does not find it. \<open>readiness_schedule\<close> is the
  configured list of back-off intervals.
\<close>

record lifecycle_env =
  new_instance_id :: "nat \<Rightarrow> string"
  issue_credential :: "string \<Rightarrow> bool"
  launch :: "string \<Rightarrow> bool"
  get_runner_health :: "string \<Rightarrow> nat \<Rightarrow> platform_runner_health option"
  readiness_schedule :: "nat list"

datatype lifecycle_call =
    IssueCredential string
  | Launch string
  | WaitSeconds nat
  | GetRunnerHealth string
  | PlatformDeleteRunner string
  | CloudDelete string
  | EmitRunnerInstalled string

text \<open>
  Modelled from the spec: the readiness test of the missing \<^verbatim>\<open>create_runners\<close>. A runner
  is ready when the platform reports \<open>online = true\<close> or \<open>deletable = true\<close>.
\<close>

definition is_ready :: "platform_runner_health option \<Rightarrow> bool" where
  "is_ready h = (case h of None \<Rightarrow> False | Some ph \<Rightarrow> online ph \<or> deletable ph)"

text \<open>
  Modelled from the spec: the readiness wait of the missing \<^verbatim>\<open>create_runners\<close> (step 5).
  One poll for each interval of the schedule, after waiting for it, until a poll finds the
  runner ready. \<open>n\<close> is the number of polls made so far.
\<close>

fun wait_until_ready ::
  "lifecycle_env \<Rightarrow> string \<Rightarrow> nat list \<Rightarrow> nat \<Rightarrow> lifecycle_call list
     \<Rightarrow> bool \<times> lifecycle_call list" where
  "wait_until_ready env identity [] n cs = (False, cs)"
| "wait_until_ready env identity (w # schedule) n cs =
     (if is_ready (get_runner_health env identity n)
      then (True, cs @ [WaitSeconds w, GetRunnerHealth identity])
      else wait_until_ready env identity schedule (Suc n)
             (cs @ [WaitSeconds w, GetRunnerHealth identity]))"

text \<open>
  Modelled from the spec: steps 1 to 5 of the missing \<^verbatim>\<open>create_runners\<close> for one runner.
  The credential (on failure the cloud is not touched), the launch (on failure the
  platform registration is deleted), the readiness wait (when the schedule is exhausted,
  the runner is deleted on the platform and on the cloud and is not returned; when it is
  ready, \<^verbatim>\<open>RunnerInstalled\<close> is emitted and the runner is returned).
\<close>

definition create_one_runner ::
  "lifecycle_env \<Rightarrow> string \<Rightarrow> lifecycle_call list \<Rightarrow> string option \<times> lifecycle_call list" where
  "create_one_runner env identity cs =
     (if \<not> issue_credential env identity then (None, cs @ [IssueCredential identity])
      else if \<not> launch env identity then
        (None, cs @ [IssueCredential identity, Launch identity, PlatformDeleteRunner identity])
      else
        (case wait_until_ready env identity (readiness_schedule env) 0
                (cs @ [IssueCredential identity, Launch identity]) of
           (True, cs1) \<Rightarrow> (Some identity, cs1 @ [EmitRunnerInstalled identity])
         | (False, cs1) \<Rightarrow>
             (None, cs1 @ [PlatformDeleteRunner identity, CloudDelete identity])))"

text \<open>
  Modelled from the spec: the loop of the missing \<^verbatim>\<open>create_runners\<close> over the runners to
  create, one after the other, collecting the instance ids of those that became ready.
\<close>

fun create_each ::
  "lifecycle_env \<Rightarrow> string list \<Rightarrow> lifecycle_call list \<Rightarrow> string list \<times> lifecycle_call list" where
  "create_each env [] cs = ([], cs)"
| "create_each env (identity # identities) cs =
     (case create_one_runner env identity cs of
        (created, cs1) \<Rightarrow>
          (case create_each env identities cs1 of
             (returned, cs2) \<Rightarrow>
               ((case created of None \<Rightarrow> [] | Some i \<Rightarrow> [i]) @ returned, cs2)))"

text \<open>
  Modelled from the spec: \<^verbatim>\<open>create_runners(count, metadata, reactive)\<close>, missing from the
  sources, for \<open>count\<close> freshly generated instance ids.
\<close>

definition create_runners ::
  "lifecycle_env \<Rightarrow> nat \<Rightarrow> lifecycle_call list \<Rightarrow> string list \<times> lifecycle_call list" where
  "create_runners env count cs = create_each env (map (new_instance_id env) [0..<count]) cs"

subsection \<open>Notions used to state the properties of creation\<close>

text \<open>The runner is found ready by one of the polls that the schedule allows.\<close>

definition becomes_ready :: "lifecycle_env \<Rightarrow> string \<Rightarrow> bool" where
  "becomes_ready env identity \<longleftrightarrow>
     (\<exists>k < length (readiness_schedule env). is_ready (get_runner_health env identity k))"

fun polls_of :: "string \<Rightarrow> lifecycle_call list \<Rightarrow> nat" where
  "polls_of identity [] = 0"
| "polls_of identity (GetRunnerHealth i # cs) =
     (if i = identity then Suc (polls_of identity cs) else polls_of identity cs)"
| "polls_of identity (_ # cs) = polls_of identity cs"

subsection \<open>A concrete platform and cloud\<close>

text \<open>
  Two runners are asked for. The first is reported online at its second poll, the second
  is never reported online or deletable. The schedule has three intervals.
\<close>

definition two_runner_env :: lifecycle_env where
  "two_runner_env =
     \<lparr>new_instance_id = (\<lambda>i. if i = 0 then ''unit-0-r-a'' else ''unit-0-r-b''),
      issue_credential = (\<lambda>i. True),
      launch = (\<lambda>i. True),
      get_runner_health = (\<lambda>i n.
        Some \<lparr>online = (i = ''unit-0-r-a'' \<and> 1 \<le> n), busy = False, deletable = False\<rparr>),
      readiness_schedule = [5, 10, 20]\<rparr>"

lemma invocations_append: "invocations (xs @ ys) = invocations xs @ invocations ys"
  by (induction xs rule: invocations.induct) simp_all

lemma retry_loop_char:
  assumes "retry_loop sleep p f (Suc n) i (int (Suc n)) cur evs = (out, evs')"
  shows "\<exists>k\<le>n. (\<forall>j<k. failed_retriably p (f (i + j)))
           \<and> invocations evs' = invocations evs @ [i..<i + k + 1]
           \<and> (out = attempt_outcome (f (i + k)) \<and> (failed_retriably p (f (i + k)) \<longrightarrow> k = n)
              \<or> (\<exists>d x. out = SleepRaised x \<and> sleep d = Some x
                    \<and> evs' \<noteq> [] \<and> last evs' = Sleep d
                    \<and> failed_retriably p (f (i + k)) \<and> k < n))"
  using assms
proof (induction n arbitrary: i cur evs)
  case 0
  then show ?case
    by (auto simp: attempt_outcome_def failed_retriably_def invocations_append
             split: sum.splits if_splits)
next
  case (Suc n)
  show ?case
  proof (cases "failed_retriably p (f i)")
    case False
    with Suc.prems have "out = attempt_outcome (f i)" "invocations evs' = invocations evs @ [i]"
      by (auto simp: attempt_outcome_def failed_retriably_def invocations_append
               split: sum.splits if_splits)
    with False show ?thesis
      by (intro exI[of _ 0]) simp
  next
    case True
    then obtain err where err: "f i = Inl err" "retried p err"
      by (auto simp: failed_retriably_def split: sum.splits)
    define evs1 where "evs1 = evs @ [Invoke i]
                 @ (if local_logger p then [LogWarning cur err, LogDebug] else [])
                 @ [Sleep cur]"
    have inv1: "invocations evs1 = invocations evs @ [i]"
      by (simp add: evs1_def invocations_append)
    show ?thesis
    proof (cases "sleep cur")
      case (Some x)
      with Suc.prems err have "out = SleepRaised x" "evs' = evs1"
        by (simp_all add: evs1_def)
      moreover have "evs1 \<noteq> []" "last evs1 = Sleep cur"
        by (simp_all add: evs1_def)
      ultimately show ?thesis
        using True Some inv1 by (intro exI[of _ 0]) auto
    next
      case None
      define cur' where "cur' = (case max_delay p of None \<Rightarrow> cur * backoff p
                                 | Some m \<Rightarrow> min (cur * backoff p) m)"
      from Suc.prems err None
      have rec: "retry_loop sleep p f (Suc n) (Suc i) (int (Suc n)) cur' evs1 = (out, evs')"
        by (simp add: cur'_def evs1_def)
      from Suc.IH[OF rec] obtain k where k: "k \<le> n"
        "\<forall>j<k. failed_retriably p (f (Suc i + j))"
        "invocations evs' = invocations evs1 @ [Suc i..<Suc i + k + 1]"
        "out = attempt_outcome (f (Suc i + k)) \<and> (failed_retriably p (f (Suc i + k)) \<longrightarrow> k = n)
           \<or> (\<exists>d x. out = SleepRaised x \<and> sleep d = Some x
                 \<and> evs' \<noteq> [] \<and> last evs' = Sleep d
                 \<and> failed_retriably p (f (Suc i + k)) \<and> k < n)"
        by (elim exE conjE) 
      have all: "\<forall>j<Suc k. failed_retriably p (f (i + j))"
      proof (intro allI impI)
        fix j assume "j < Suc k"
        show "failed_retriably p (f (i + j))"
        proof (cases j)
          case 0
          with True show ?thesis by simp
        next
          case (Suc j')
          with \<open>j < Suc k\<close> k(2) show ?thesis by simp
        qed
      qed
      have upt: "invocations evs @ [i] @ [Suc i..<Suc i + k + 1] = invocations evs @ [i..<i + Suc k + 1]"
        by (simp add: upt_conv_Cons)
      have inv: "invocations evs' = invocations evs @ [i..<i + Suc k + 1]"
        using k(3) inv1 upt by simp
      have last: "out = attempt_outcome (f (i + Suc k)) \<and> (failed_retriably p (f (i + Suc k)) \<longrightarrow> Suc k = Suc n)
           \<or> (\<exists>d x. out = SleepRaised x \<and> sleep d = Some x
                 \<and> evs' \<noteq> [] \<and> last evs' = Sleep d
                 \<and> failed_retriably p (f (i + Suc k)) \<and> Suc k < Suc n)"
        using k(4) by simp
      from k(1) have "Suc k \<le> Suc n" by simp
      with all inv last show ?thesis
        by (intro exI[of _ "Suc k"] conjI)
    qed
  qed
qed

lemma retry_loop_sleeps_nonneg:
  assumes "retry_loop sleep p f n i r cur evs = (out, evs')"
    and "0 \<le> cur" and "0 \<le> backoff p" and "\<forall>m. max_delay p = Some m \<longrightarrow> 0 \<le> m"
    and "\<forall>d. Sleep d \<in> set evs \<longrightarrow> 0 \<le> d"
  shows "\<forall>d. Sleep d \<in> set evs' \<longrightarrow> 0 \<le> d"
  using assms
proof (induction n arbitrary: i r cur evs)
  case 0
  then show ?case by simp
next
  case (Suc n)
  show ?case
  proof (cases "f i")
    case (Inr v)
    with Suc.prems show ?thesis by auto
  next
    case (Inl err)
    show ?thesis
    proof (cases "retried p err \<and> r - 1 \<noteq> 0 \<and> sleep cur = None")
      case False
      with Inl Suc.prems(1,2,5) show ?thesis
        by (auto split: if_splits option.splits)
    next
      case True
      define cur' where "cur' = (case max_delay p of None \<Rightarrow> cur * backoff p
                                 | Some m \<Rightarrow> min (cur * backoff p) m)"
      define evs1 where "evs1 = evs @ [Invoke i]
                 @ (if local_logger p then [LogWarning cur err, LogDebug] else [])
                 @ [Sleep cur]"
      from Suc.prems(1) Inl True
      have rec: "retry_loop sleep p f n (Suc i) (r - 1) cur' evs1 = (out, evs')"
        by (simp add: cur'_def evs1_def)
      have c: "0 \<le> cur'"
        using Suc.prems(2,3,4) by (auto simp: cur'_def split: option.splits)
      have e: "\<forall>d. Sleep d \<in> set evs1 \<longrightarrow> 0 \<le> d"
        using Suc.prems(2,5) by (auto simp: evs1_def)
      from Suc.IH[OF rec c Suc.prems(3,4) e] show ?thesis .
    qed
  qed
qed

subsection \<open>C9: the wrapper stops within \<open>tries\<close> invocations\<close>

text \<open>
  C9 says that the wrapper ends in one of two ways: it returns the value of the first
  successful invocation, or it raises again the exception of the final failed attempt.
  There is a third way: \<^verbatim>\<open>time.sleep(current_delay)\<close> raises. Under
  \<^verbatim>\<open>@retry(tries=3, delay=-1, backoff=2)\<close> a function that raises twice and then
  returns 7 is invoked once; \<^verbatim>\<open>time.sleep(-1)\<close> then raises \<^verbatim>\<open>ValueError\<close>, which
  leaves the wrapper. The wrapper neither returns the 7 (as it does with \<open>delay = 5\<close>)
  nor raises the exception of the function.
\<close>

theorem retry_sleep_raises_counterexample:
  "1 \<le> tries negative_delay_policy
   \<and> fn_with_retry time_sleep negative_delay_policy demo_func
       = (SleepRaised ValueError,
          [Invoke 0, LogWarning (- 1) ''SSHError'', LogDebug, Sleep (- 1)])
   \<and> demo_func 0 = Inl ''SSHError''
   \<and> demo_func 2 = Inr 7
   \<and> fst (fn_with_retry time_sleep negative_delay_policy demo_func) \<noteq> Returned 7
   \<and> fst (fn_with_retry time_sleep negative_delay_policy demo_func) \<noteq> Raised ''SSHError''
   \<and> invocations (snd (fn_with_retry time_sleep negative_delay_policy demo_func)) = [0]
   \<and> fn_with_retry time_sleep demo_policy demo_func
       = (Returned 7, [Invoke 0, LogWarning 5 ''SSHError'', LogDebug, Sleep 5,
                       Invoke 1, LogWarning 10 ''SSHError'', LogDebug, Sleep 10, Invoke 2])"
  by (simp add: fn_with_retry_def negative_delay_policy_def demo_policy_def demo_func_def
        time_sleep_def numeral_3_eq_3)

text \<open>
  C9, amended. For every function and every retry policy with \<open>tries \<ge> 1\<close>, the
  wrapper invokes the function at most \<open>tries\<close> times: it makes the invocations
  \<open>0, \<dots>, k\<close> for some \<open>k < tries\<close>, and every invocation before the \<open>k\<close>-th
  raised an exception of the retried type. The trailing \<^verbatim>\<open>raise RuntimeError\<close> is
  never reached. The wrapper ends in one of two ways. Either its outcome is the outcome
  of the \<open>k\<close>-th invocation: its return value if it returned (the first successful
  invocation), its exception if it raised (the final failed attempt, which is the
  \<open>tries\<close>-th invocation when the exception is of the retried type). Or the \<open>k\<close>-th
  invocation raised an exception of the retried type, it was not the \<open>tries\<close>-th, and
  the call of \<^verbatim>\<open>time.sleep\<close> that follows it raised: that exception leaves the
  wrapper, the sleep is the last thing it did, and the function is not invoked again.
  When every call of \<^verbatim>\<open>time.sleep\<close> the wrapper makes returns, it ends the first
  way. A policy with \<open>delay \<ge> 0\<close>, \<open>backoff \<ge> 0\<close> and \<open>max_delay\<close> absent or
  \<open>\<ge> 0\<close> only asks for non-negative durations.
\<close>

theorem retry_bounded_unless_sleep_raises:
  assumes "1 \<le> tries p" and "fn_with_retry sleep p func = (out, evs)"
  shows "\<exists>k. int k < tries p
           \<and> invocations evs = [0..<Suc k]
           \<and> (\<forall>j<k. failed_retriably p (func j))
           \<and> out \<noteq> RuntimeError_Unreachable
           \<and> (out = attempt_outcome (func k)
                \<and> (failed_retriably p (func k) \<longrightarrow> int k = tries p - 1)
              \<or> (\<exists>d x. out = SleepRaised x \<and> sleep d = Some x
                    \<and> evs \<noteq> [] \<and> last evs = Sleep d
                    \<and> failed_retriably p (func k) \<and> int k < tries p - 1))
           \<and> ((\<forall>d. Sleep d \<in> set evs \<longrightarrow> sleep d = None) \<longrightarrow> out = attempt_outcome (func k))
           \<and> (0 \<le> delay p \<and> 0 \<le> backoff p \<and> (\<forall>m. max_delay p = Some m \<longrightarrow> 0 \<le> m) \<longrightarrow>
                (\<forall>d. Sleep d \<in> set evs \<longrightarrow> 0 \<le> d))"
proof -
  define n where "n = nat (tries p) - 1"
  have n: "nat (tries p) = Suc n" "tries p = int (Suc n)"
    using assms(1) by (simp_all add: n_def)
  from assms(2) have run: "retry_loop sleep p func (nat (tries p)) 0 (tries p) (delay p) [] = (out, evs)"
    by (simp only: fn_with_retry_def)
  then have "retry_loop sleep p func (Suc n) 0 (int (Suc n)) (delay p) [] = (out, evs)"
    by (simp only: n(2) nat_int)
  from retry_loop_char[OF this]
  have "\<exists>k. k \<le> n \<and> (\<forall>j<k. failed_retriably p (func j))
           \<and> invocations evs = [0..<Suc k]
           \<and> (out = attempt_outcome (func k) \<and> (failed_retriably p (func k) \<longrightarrow> k = n)
              \<or> (\<exists>d x. out = SleepRaised x \<and> sleep d = Some x
                    \<and> evs \<noteq> [] \<and> last evs = Sleep d
                    \<and> failed_retriably p (func k) \<and> k < n))"
    by (simp del: upt_Suc)
  then obtain k where k: "k \<le> n" "\<forall>j<k. failed_retriably p (func j)"
    "invocations evs = [0..<Suc k]"
    "out = attempt_outcome (func k) \<and> (failed_retriably p (func k) \<longrightarrow> k = n)
       \<or> (\<exists>d x. out = SleepRaised x \<and> sleep d = Some x
             \<and> evs \<noteq> [] \<and> last evs = Sleep d
             \<and> failed_retriably p (func k) \<and> k < n)"
    by (elim exE conjE)
  have 1: "out \<noteq> RuntimeError_Unreachable"
    using k(4) by (auto simp: attempt_outcome_def split: sum.splits)
  have 2: "int k < tries p"
    using k(1) n(2) by simp
  have 3: "out = attempt_outcome (func k)
                \<and> (failed_retriably p (func k) \<longrightarrow> int k = tries p - 1)
              \<or> (\<exists>d x. out = SleepRaised x \<and> sleep d = Some x
                    \<and> evs \<noteq> [] \<and> last evs = Sleep d
                    \<and> failed_retriably p (func k) \<and> int k < tries p - 1)"
    using k(4) n(2) by auto
  have 4: "(\<forall>d. Sleep d \<in> set evs \<longrightarrow> sleep d = None) \<longrightarrow> out = attempt_outcome (func k)"
  proof
    assume a: "\<forall>d. Sleep d \<in> set evs \<longrightarrow> sleep d = None"
    show "out = attempt_outcome (func k)"
    proof (rule ccontr)
      assume "out \<noteq> attempt_outcome (func k)"
      with k(4) obtain d x where dx: "sleep d = Some x" "evs \<noteq> []" "last evs = Sleep d"
        by blast
      from dx(2,3) have "Sleep d \<in> set evs"
        using last_in_set by metis
      with a dx(1) show False by simp
    qed
  qed
  have 5: "0 \<le> delay p \<and> 0 \<le> backoff p \<and> (\<forall>m. max_delay p = Some m \<longrightarrow> 0 \<le> m) \<longrightarrow>
                (\<forall>d. Sleep d \<in> set evs \<longrightarrow> 0 \<le> d)"
  proof
    assume a: "0 \<le> delay p \<and> 0 \<le> backoff p \<and> (\<forall>m. max_delay p = Some m \<longrightarrow> 0 \<le> m)"
    have "\<forall>d. Sleep d \<in> set ([] :: 'a retry_event list) \<longrightarrow> 0 \<le> d"
      by simp
    with retry_loop_sleeps_nonneg[OF run] a show "\<forall>d. Sleep d \<in> set evs \<longrightarrow> 0 \<le> d"
      by blast
  qed
  show ?thesis
    using 1 2 3 4 5 k(2,3) by (intro exI[of _ k] conjI)
qed

theorem retry_bounded_unless_sleep_raises_witness:
  "1 \<le> tries demo_policy
   \<and> fn_with_retry time_sleep demo_policy demo_func
       = (Returned 7, [Invoke 0, LogWarning 5 ''SSHError'', LogDebug, Sleep 5,
                       Invoke 1, LogWarning 10 ''SSHError'', LogDebug, Sleep 10, Invoke 2])
   \<and> (\<exists>k. int k < tries demo_policy
          \<and> invocations (snd (fn_with_retry time_sleep demo_policy demo_func)) = [0..<Suc k]
          \<and> fst (fn_with_retry time_sleep demo_policy demo_func) = attempt_outcome (demo_func k)
          \<and> fst (fn_with_retry time_sleep demo_policy demo_func) \<noteq> RuntimeError_Unreachable)"
proof -
  let ?evs = "[Invoke 0, LogWarning 5 ''SSHError'', LogDebug, Sleep 5,
               Invoke 1, LogWarning 10 ''SSHError'', LogDebug, Sleep 10, Invoke 2]"
  have t: "1 \<le> tries demo_policy"
    by (simp add: demo_policy_def)
  have run: "fn_with_retry time_sleep demo_policy demo_func = (Returned 7, ?evs)"
    by (simp add: fn_with_retry_def demo_policy_def demo_func_def time_sleep_def numeral_3_eq_3)
  have slept: "\<forall>d. Sleep d \<in> set ?evs \<longrightarrow> time_sleep d = None"
    by (auto simp: time_sleep_def)
  from retry_bounded_unless_sleep_raises [OF t run]
  obtain k where k: "int k < tries demo_policy"
    "invocations ?evs = [0..<Suc k]"
    "Returned 7 \<noteq> (RuntimeError_Unreachable :: (string, nat) retry_outcome)"
    "(\<forall>d. Sleep d \<in> set ?evs \<longrightarrow> time_sleep d = None)
       \<longrightarrow> Returned 7 = attempt_outcome (demo_func k)"
    by (elim exE conjE)
  from k(4) slept have "Returned 7 = attempt_outcome (demo_func k)"
    by (rule mp)
  with k(1,2,3)
  have "\<exists>k. int k < tries demo_policy
          \<and> invocations (snd (fn_with_retry time_sleep demo_policy demo_func)) = [0..<Suc k]
          \<and> fst (fn_with_retry time_sleep demo_policy demo_func) = attempt_outcome (demo_func k)
          \<and> fst (fn_with_retry time_sleep demo_policy demo_func) \<noteq> RuntimeError_Unreachable"
    unfolding run by (intro exI[of _ k] conjI) (simp_all del: upt_Suc)
  with t run show ?thesis
    by (intro conjI)
qed

section \<open>Properties of the runner scaler\<close>

lemma reconcile_non_reactive_cleanup_raises:
  assumes "manager_cleanup m (world s) = (Inl e, w1)"
  shows "reconcile_non_reactive m expected s
           = (Inl e, s\<lparr>world := w1, calls := calls s @ [Cleanup]\<rparr>)"
  using assms by (simp add: reconcile_non_reactive_def call_manager_def)

lemma reconcile_non_reactive_get_runners_raises:
  assumes "manager_cleanup m (world s) = (Inr stats, w1)"
    and "manager_get_runners m w1 = (Inl e, w2)"
  shows "reconcile_non_reactive m expected s
           = (Inl e, s\<lparr>world := w2, calls := calls s @ [Cleanup, GetRunners]\<rparr>)"
  using assms by (simp add: reconcile_non_reactive_def call_manager_def)

lemma reconcile_non_reactive_no_change:
  assumes "manager_cleanup m (world s) = (Inr stats, w1)"
    and "manager_get_runners m w1 = (Inr runners, w2)"
    and "expected - int (length runners) = 0"
  shows "reconcile_non_reactive m expected s
           = (Inr \<lparr>runner_diff = 0, metric_stats = stats\<rparr>,
              s\<lparr>world := w2, calls := calls s @ [Cleanup, GetRunners]\<rparr>)"
  using assms by (simp add: reconcile_non_reactive_def call_manager_def)

lemma reconcile_non_reactive_create:
  assumes "manager_cleanup m (world s) = (Inr stats, w1)"
    and "manager_get_runners m w1 = (Inr runners, w2)"
    and "expected - int (length runners) > 0"
    and "manager_create_runners m (expected - int (length runners)) w2 = (r3, w3)"
  shows "reconcile_non_reactive m expected s
           = ((case r3 of
                 Inl MissingServerConfigError \<Rightarrow>
                   Inr \<lparr>runner_diff = expected - int (length runners), metric_stats = stats\<rparr>
               | Inl e \<Rightarrow> Inl e
               | Inr ids \<Rightarrow>
                   Inr \<lparr>runner_diff = expected - int (length runners), metric_stats = stats\<rparr>),
              s\<lparr>world := w3,
                calls := calls s @ [Cleanup, GetRunners,
                                    CreateRunners (expected - int (length runners))]\<rparr>)"
  using assms
  by (simp add: reconcile_non_reactive_def call_manager_def Let_def
           split: sum.splits error.splits)

lemma reconcile_non_reactive_delete:
  assumes "manager_cleanup m (world s) = (Inr stats, w1)"
    and "manager_get_runners m w1 = (Inr runners, w2)"
    and "expected - int (length runners) < 0"
    and "manager_delete_runners m (- (expected - int (length runners))) w2 = (r3, w3)"
  shows "reconcile_non_reactive m expected s
           = ((case r3 of
                 Inl e \<Rightarrow> Inl e
               | Inr delete_stats \<Rightarrow>
                   Inr \<lparr>runner_diff = expected - int (length runners),
                        metric_stats = merge_stats delete_stats stats\<rparr>),
              s\<lparr>world := w3,
                calls := calls s @ [Cleanup, GetRunners,
                                    DeleteRunners (- (expected - int (length runners)))]\<rparr>)"
  using assms
  by (simp add: reconcile_non_reactive_def call_manager_def Let_def split: sum.splits)

subsection \<open>C1: cleanup, then enumeration, then one creation or deletion\<close>

text \<open>
  C1. A non-reactive reconcile call with expected quantity \<open>expected\<close> first calls
  \<open>cleanup\<close>, then \<open>get_runners\<close> on the world that \<open>cleanup\<close> left, then computes
  \<open>diff = expected - len(runners)\<close> and calls \<open>create_runners(diff)\<close> when
  \<open>diff > 0\<close>, \<open>delete_runners(- diff)\<close> when \<open>diff < 0\<close>, and neither when
  \<open>diff = 0\<close>; a call that returns, returns \<open>diff\<close>. On every path, also one that an
  exception ends, the calls made are \<open>cleanup\<close>, then possibly \<open>get_runners\<close>, then
  possibly the one creation or deletion.
\<close>

theorem reconcile_non_reactive_cleanup_then_diff:
  assumes "reconcile_non_reactive m expected s = (r, s')"
  shows "(\<exists>rest. calls s' = calls s @ Cleanup # rest
            \<and> (rest = [] \<or> (\<exists>diff. rest = GetRunners # next_call diff)))
       \<and> (\<forall>res. r = Inr res \<longrightarrow>
            (\<exists>stats w1 runners w2.
               manager_cleanup m (world s) = (Inr stats, w1)
               \<and> manager_get_runners m w1 = (Inr runners, w2)
               \<and> runner_diff res = expected - int (length runners)
               \<and> calls s' = calls s @ [Cleanup, GetRunners] @ next_call (runner_diff res)))"
proof -
  obtain r1 w1 where c: "manager_cleanup m (world s) = (r1, w1)"
    by fastforce
  show ?thesis
  proof (cases r1)
    case (Inl e)
    from reconcile_non_reactive_cleanup_raises[OF c[unfolded Inl], of expected] assms
    have "r = Inl e" "calls s' = calls s @ [Cleanup]"
      by auto
    then show ?thesis by simp
  next
    case (Inr stats)
    note c = c[unfolded Inr]
    obtain r2 w2 where g: "manager_get_runners m w1 = (r2, w2)"
      by fastforce
    show ?thesis
    proof (cases r2)
      case (Inl e)
      from reconcile_non_reactive_get_runners_raises[OF c g[unfolded Inl], of expected] assms
      have "r = Inl e" "calls s' = calls s @ [Cleanup, GetRunners]"
        by auto
      moreover have "[GetRunners] = GetRunners # next_call 0"
        by (simp add: next_call_def)
      ultimately show ?thesis by auto
    next
      case (Inr runners)
      note g = g[unfolded Inr]
      let ?diff = "expected - int (length runners)"
      consider (same) "?diff = 0" | (more) "?diff > 0" | (fewer) "?diff < 0"
        by linarith
      then show ?thesis
      proof cases
        case same
        from reconcile_non_reactive_no_change[OF c g same] assms
        have "r = Inr \<lparr>runner_diff = 0, metric_stats = stats\<rparr>"
          "calls s' = calls s @ [Cleanup, GetRunners]"
          by auto
        moreover have "next_call 0 = []"
          by (simp add: next_call_def)
        moreover from this have "\<exists>d. [GetRunners] = GetRunners # next_call d"
          by (intro exI[of _ 0]) simp
        ultimately show ?thesis
          using c g same by simp
      next
        case more
        obtain r3 w3 where cr: "manager_create_runners m (expected - int (length runners)) w2 = (r3, w3)"
          by fastforce
        from reconcile_non_reactive_create[OF c g more cr] assms
        have r: "r = (case r3 of
                 Inl MissingServerConfigError \<Rightarrow>
                   Inr \<lparr>runner_diff = ?diff, metric_stats = stats\<rparr>
               | Inl e \<Rightarrow> Inl e
               | Inr ids \<Rightarrow> Inr \<lparr>runner_diff = ?diff, metric_stats = stats\<rparr>)"
          and cs: "calls s' = calls s @ [Cleanup, GetRunners, CreateRunners ?diff]"
          by auto
        have nc: "next_call ?diff = [CreateRunners ?diff]"
          using more by (simp add: next_call_def)
        then have ex: "\<exists>d. [CreateRunners ?diff] = next_call d"
          by (intro exI[of _ "?diff"]) simp
        have "\<forall>res. r = Inr res \<longrightarrow> runner_diff res = ?diff"
          using r by (auto split: sum.splits error.splits)
        then show ?thesis
          using c g cs nc ex by auto
      next
        case fewer
        obtain r3 w3 where dl: "manager_delete_runners m (- (expected - int (length runners))) w2 = (r3, w3)"
          by fastforce
        from reconcile_non_reactive_delete[OF c g fewer dl] assms
        have r: "r = (case r3 of Inl e \<Rightarrow> Inl e
               | Inr delete_stats \<Rightarrow>
                   Inr \<lparr>runner_diff = ?diff, metric_stats = merge_stats delete_stats stats\<rparr>)"
          and cs: "calls s' = calls s @ [Cleanup, GetRunners, DeleteRunners (- ?diff)]"
          by auto
        have nc: "next_call ?diff = [DeleteRunners (- ?diff)]"
          using fewer by (simp add: next_call_def)
        then have ex: "\<exists>d. [DeleteRunners (- ?diff)] = next_call d"
          by (intro exI[of _ "?diff"]) simp
        have "\<forall>res. r = Inr res \<longrightarrow> runner_diff res = ?diff"
          using r by (auto split: sum.splits)
        then show ?thesis
          using c g cs nc ex by auto
      qed
    qed
  qed
qed


theorem reconcile_non_reactive_cleanup_then_diff_witness:
  "reconcile_non_reactive fleet_manager 3 (start_sys [runner_a, runner_d])
     = (Inr \<lparr>runner_diff = 2, metric_stats = [RunnerStop \<mapsto> 1]\<rparr>,
        \<lparr>world = [runner_a,
                  \<lparr>name = ''new'', github_state = Some IDLE, health = HEALTHY\<rparr>,
                  \<lparr>name = ''new'', github_state = Some IDLE, health = HEALTHY\<rparr>],
         calls = [Cleanup, GetRunners, CreateRunners 2], issue_event_calls = []\<rparr>)
   \<and> (\<exists>stats w1 runners w2.
         manager_cleanup fleet_manager [runner_a, runner_d] = (Inr stats, w1)
         \<and> manager_get_runners fleet_manager w1 = (Inr runners, w2)
         \<and> 2 = 3 - int (length runners))
   \<and> next_call 2 = [CreateRunners 2]"
proof -
  have run: "reconcile_non_reactive fleet_manager 3 (start_sys [runner_a, runner_d])
     = (Inr \<lparr>runner_diff = 2, metric_stats = [RunnerStop \<mapsto> 1]\<rparr>,
        \<lparr>world = [runner_a,
                  \<lparr>name = ''new'', github_state = Some IDLE, health = HEALTHY\<rparr>,
                  \<lparr>name = ''new'', github_state = Some IDLE, health = HEALTHY\<rparr>],
         calls = [Cleanup, GetRunners, CreateRunners 2], issue_event_calls = []\<rparr>)"
    by (simp add: reconcile_non_reactive_def call_manager_def fleet_manager_def start_sys_def
          runner_a_def runner_d_def Let_def numeral_2_eq_2)
  from reconcile_non_reactive_cleanup_then_diff [OF run]
  have "\<exists>stats w1 runners w2.
         manager_cleanup fleet_manager [runner_a, runner_d] = (Inr stats, w1)
         \<and> manager_get_runners fleet_manager w1 = (Inr runners, w2)
         \<and> 2 = 3 - int (length runners)"
    by (auto simp: start_sys_def)
  moreover have "next_call 2 = [CreateRunners 2]"
    by (simp add: next_call_def)
  ultimately show ?thesis
    using run by (intro conjI)
qed

lemma call_manager_issue_event_calls:
  "call_manager c method s = (r, s') \<Longrightarrow> issue_event_calls s' = issue_event_calls s"
  by (auto simp: call_manager_def split: prod.splits)

lemma reconcile_non_reactive_issue_event_calls:
  "reconcile_non_reactive m expected s = (r, s') \<Longrightarrow> issue_event_calls s' = issue_event_calls s"
  by (auto simp: reconcile_non_reactive_def call_manager_def Let_def
           split: prod.splits sum.splits error.splits if_splits)

lemma reconcile_try_issue_event_calls:
  "reconcile_try sc s = (r, s') \<Longrightarrow> issue_event_calls s' = issue_event_calls s"
  by (auto simp: reconcile_try_def
           dest: call_manager_issue_event_calls reconcile_non_reactive_issue_event_calls
           split: prod.splits sum.splits if_splits)

lemma card_names_filter:
  assumes "distinct (map name runners)"
  shows "card {name r | r. r \<in> set runners \<and> P r} = length (filter P runners)"
proof -
  have "{name r | r. r \<in> set runners \<and> P r} = set (map name (filter P runners))"
    by auto
  moreover have "distinct (map name (filter P runners))"
    using assms by (rule distinct_map_filter)
  then have "card (set (map name (filter P runners))) = length (map name (filter P runners))"
    by (rule distinct_card)
  ultimately show ?thesis
    by (simp only: length_map)
qed

lemma issue_reconciliation_metric_counts:
  assumes "distinct (map name (runner_list d))"
  shows "issue_event_calls (issue_reconciliation_metric d now s)
           = issue_event_calls s @
             [\<lparr>timestamp = now, flavor = data_flavor d,
               crashed_runners = stats_get (data_metric_stats d) RunnerStart
                                   - stats_get (data_metric_stats d) RunnerStop,
               idle_runners = int (length (filter is_available (runner_list d))),
               active_runners = int (length (filter is_busy (runner_list d))),
               expected_runners = expected_runner_quantity d,
               duration = end_timestamp d - start_timestamp d\<rparr>]"
proof -
  have "{name r | r. r \<in> set (runner_list d) \<and> github_state r = Some IDLE}
          \<union> {name r | r. r \<in> set (runner_list d)
                \<and> github_state r = Some OFFLINE \<and> health r = HEALTHY}
        = {name r | r. r \<in> set (runner_list d) \<and> is_available r}"
    by (auto simp: is_available_def)
  then have "card ({name r | r. r \<in> set (runner_list d) \<and> github_state r = Some IDLE}
          \<union> {name r | r. r \<in> set (runner_list d)
                \<and> github_state r = Some OFFLINE \<and> health r = HEALTHY})
        = length (filter is_available (runner_list d))"
    using card_names_filter[OF assms, of is_available] by simp
  moreover have "card {name r | r. r \<in> set (runner_list d) \<and> github_state r = Some BUSY}
        = length (filter is_busy (runner_list d))"
    using card_names_filter[OF assms, of is_busy] by (simp add: is_busy_def)
  ultimately show ?thesis
    by (simp add: issue_reconciliation_metric_def Let_def)
qed

subsection \<open>C8: the reconciliation metric of a cycle\<close>

text \<open>
  C8 says that every reconcile cycle, also one that ends in an error, issues exactly one
  \<^verbatim>\<open>Reconciliation\<close> metric whose \<open>crashed_runners\<close> is the cycle's \<^verbatim>\<open>RunnerStart\<close>
  count minus its \<^verbatim>\<open>RunnerStop\<close> count. Two cycles that end in an error show otherwise.
  With the cloud unreachable, \<open>cleanup\<close> raises and so does the \<open>get_runners\<close> of the
  \<^verbatim>\<open>finally\<close> block: no metric is issued. With a runner manager that stops two crashed
  runners in \<open>cleanup\<close> and then fails to create a runner, the metric is issued with
  \<open>crashed_runners = 0\<close>, because \<open>metric_stats\<close> is assigned only when the branch
  completes.
\<close>

theorem reconcile_metric_counterexample:
  "reconcile cloud_down_scaler (start_sys ())
     = (Inl CloudError, \<lparr>world = (), calls = [Cleanup, GetRunners], issue_event_calls = []\<rparr>)
   \<and> (\<exists>stats w. manager_cleanup (manager no_create_scaler) [runner_d, runner_e] = (Inr stats, w)
          \<and> stats_get stats RunnerStart = 0 \<and> stats_get stats RunnerStop = 2)
   \<and> fst (reconcile no_create_scaler (start_sys [runner_d, runner_e])) = Inl ReconcileError
   \<and> calls (snd (reconcile no_create_scaler (start_sys [runner_d, runner_e])))
       = [Cleanup, GetRunners, CreateRunners 1, GetRunners]
   \<and> map crashed_runners
        (issue_event_calls (snd (reconcile no_create_scaler (start_sys [runner_d, runner_e]))))
       = [0]"
  by (simp add: reconcile_def reconcile_try_def reconcile_non_reactive_def call_manager_def
        issue_reconciliation_metric_def cloud_down_scaler_def no_create_scaler_def
        fleet_scaler_def fleet_manager_def start_sys_def runner_d_def runner_e_def
        stats_get_def Let_def)

text \<open>
  C8, amended. Every reconcile cycle, reactive or not and however its branch ended, in
  which the \<open>get_runners\<close> call of the \<^verbatim>\<open>finally\<close> block returns (a list of runners with
  pairwise distinct names) hands exactly one \<^verbatim>\<open>Reconciliation\<close> metric to
  \<^verbatim>\<open>issue_event\<close>. Its \<open>idle_runners\<close> is the number of listed runners that are idle, or
  offline and healthy; its \<open>active_runners\<close> is the number of busy ones; its
  \<open>crashed_runners\<close> is the \<^verbatim>\<open>RunnerStart\<close> count minus the \<^verbatim>\<open>RunnerStop\<close> count of the
  statistics the branch returned, and \<open>0\<close> when the branch raised.
\<close>

theorem reconcile_issues_one_metric:
  assumes "reconcile_try sc s = (body, s1)"
    and "manager_get_runners (manager sc) (world s1) = (Inr runners, w2)"
    and "distinct (map name runners)"
  shows "\<exists>m. issue_event_calls (snd (reconcile sc s)) = issue_event_calls s @ [m]
           \<and> idle_runners m = int (length (filter is_available runners))
           \<and> active_runners m = int (length (filter is_busy runners))
           \<and> crashed_runners m = crashed_of body"
proof -
  let ?stats = "case body of Inr (diff, st) \<Rightarrow> st | Inl e \<Rightarrow> Map.empty"
  let ?d = "\<lparr>start_timestamp = time_now sc (world s),
             end_timestamp = time_now sc w2,
             data_metric_stats = ?stats,
             runner_list = runners,
             data_flavor = manager_name (manager sc),
             expected_runner_quantity = base_quantity sc\<rparr>"
  let ?s2 = "s1\<lparr>world := w2, calls := calls s1 @ [GetRunners]\<rparr>"
  have "snd (reconcile sc s) = issue_reconciliation_metric ?d (time_now sc w2) ?s2"
    using assms(1,2) by (simp add: reconcile_def call_manager_def Let_def)
  moreover have "issue_event_calls ?s2 = issue_event_calls s"
    using reconcile_try_issue_event_calls[OF assms(1)] by simp
  moreover have "stats_get ?stats RunnerStart - stats_get ?stats RunnerStop = crashed_of body"
    by (simp add: crashed_of_def stats_get_def split: sum.splits prod.splits)
  ultimately show ?thesis
    using issue_reconciliation_metric_counts[of ?d "time_now sc w2" ?s2] assms(3)
    by simp
qed


theorem reconcile_issues_one_metric_witness:
  "reconcile_try (fleet_scaler 3) (start_sys [runner_a, runner_b, runner_c, runner_d])
     = (Inr (0, [RunnerStop \<mapsto> 1]),
        \<lparr>world = [runner_a, runner_b, runner_c], calls = [Cleanup, GetRunners],
         issue_event_calls = []\<rparr>)
   \<and> distinct (map name [runner_a, runner_b, runner_c])
   \<and> (\<exists>m. issue_event_calls
              (snd (reconcile (fleet_scaler 3) (start_sys [runner_a, runner_b, runner_c, runner_d])))
            = [m]
          \<and> idle_runners m = 2 \<and> active_runners m = 1 \<and> crashed_runners m = - 1)"
proof -
  have body: "reconcile_try (fleet_scaler 3) (start_sys [runner_a, runner_b, runner_c, runner_d])
     = (Inr (0, [RunnerStop \<mapsto> 1]),
        \<lparr>world = [runner_a, runner_b, runner_c], calls = [Cleanup, GetRunners],
         issue_event_calls = []\<rparr>)"
    by (simp add: reconcile_try_def reconcile_non_reactive_def call_manager_def
          fleet_scaler_def fleet_manager_def start_sys_def
          runner_a_def runner_b_def runner_c_def runner_d_def Let_def)
  have runners: "manager_get_runners (manager (fleet_scaler 3))
       (world \<lparr>world = [runner_a, runner_b, runner_c], calls = [Cleanup, GetRunners],
               issue_event_calls = []\<rparr>)
     = (Inr [runner_a, runner_b, runner_c], [runner_a, runner_b, runner_c])"
    by (simp add: fleet_scaler_def fleet_manager_def)
  have names: "distinct (map name [runner_a, runner_b, runner_c])"
    by (simp add: runner_a_def runner_b_def runner_c_def)
  from reconcile_issues_one_metric [OF body runners names]
  have "\<exists>m. issue_event_calls
              (snd (reconcile (fleet_scaler 3) (start_sys [runner_a, runner_b, runner_c, runner_d])))
            = [m]
          \<and> idle_runners m = 2 \<and> active_runners m = 1 \<and> crashed_runners m = - 1"
    by (simp add: start_sys_def is_available_def is_busy_def crashed_of_def stats_get_def
          runner_a_def runner_b_def runner_c_def)
  with body names show ?thesis
    by (intro conjI)
qed

section \<open>Properties of the HTTP control surface\<close>

lemma flush_cases:
  assumes "flush sc mode s = (r, s')"
  shows "(calls s' = calls s @ [Cleanup] \<and> (\<exists>e. r = Inl e))
       \<or> calls s' = calls s @ [Cleanup, FlushRunners mode]"
  using assms
  by (auto simp: flush_def call_manager_def split: prod.splits sum.splits)

lemma flush_returns:
  assumes "manager_cleanup (manager sc) (world s) = (Inr stats, w1)"
     and "manager_flush_runners (manager sc) mode w1 = (Inr delete_stats, w2)"
  shows "\<exists>n s'. flush sc mode s = (Inr n, s')"
  using assms by (simp add: flush_def call_manager_def)

text \<open>
  Once \<^verbatim>\<open>build\<close> has returned a scaler, the handler does what is expected of it: it
  asks the scaler to flush busy runners (\<open>FLUSH_BUSY\<close>) if and only if the
  \<^verbatim>\<open>flush-busy\<close> query parameter is the string \<open>True\<close> or \<open>true\<close>, asks for an
  idle-only flush (\<open>FLUSH_IDLE\<close>) with any other value or with no such parameter, and
  answers with an empty body and status 204 when the flush returns.
\<close>

lemma flush_runner_mode_when_built:
  assumes "build env app_config openstack_configuration = Inr sc"
    and "flush_runner True env app_config openstack_configuration flush_busy_str s = (r, s')"
  shows "(\<forall>mode rest. calls s' = calls s @ rest \<longrightarrow> FlushRunners mode \<in> set rest \<longrightarrow>
            (mode = FLUSH_BUSY \<longleftrightarrow> flush_busy_str = Some ''True'' \<or> flush_busy_str = Some ''true''))
       \<and> (\<forall>response. r = Inr response \<longrightarrow>
            response = ('''', 204)
            \<and> calls s' = calls s @ [Cleanup, FlushRunners (requested_flush_mode flush_busy_str)])
       \<and> (\<forall>stats w1 delete_stats w2.
               manager_cleanup (manager sc) (world s) = (Inr stats, w1) \<longrightarrow>
               manager_flush_runners (manager sc) (requested_flush_mode flush_busy_str) w1
                 = (Inr delete_stats, w2) \<longrightarrow>
               r = Inr ('''', 204))"
proof -
  let ?mode = "requested_flush_mode flush_busy_str"
  obtain r0 s0 where f: "flush sc ?mode s = (r0, s0)"
    by fastforce
  from assms f have s': "s' = s0"
    and r: "r = (case r0 of Inl e \<Rightarrow> Inl e | Inr n \<Rightarrow> Inr ('''', 204))"
    by (auto simp: flush_runner_def requested_flush_mode_def Let_def split: sum.splits)
  from flush_cases[OF f] have cs: "(calls s' = calls s @ [Cleanup] \<and> (\<exists>e. r0 = Inl e))
       \<or> calls s' = calls s @ [Cleanup, FlushRunners ?mode]"
    by (simp add: s')
  have 1: "\<forall>mode rest. calls s' = calls s @ rest \<longrightarrow> FlushRunners mode \<in> set rest \<longrightarrow>
            (mode = FLUSH_BUSY \<longleftrightarrow> flush_busy_str = Some ''True'' \<or> flush_busy_str = Some ''true'')"
    using cs by (auto simp: requested_flush_mode_def split: if_splits)
  have 2: "\<forall>response. r = Inr response \<longrightarrow>
            response = ('''', 204) \<and> calls s' = calls s @ [Cleanup, FlushRunners ?mode]"
    using cs r by (auto split: sum.splits)
  have 3: "\<forall>stats w1 delete_stats w2.
               manager_cleanup (manager sc) (world s) = (Inr stats, w1) \<longrightarrow>
               manager_flush_runners (manager sc) ?mode w1 = (Inr delete_stats, w2) \<longrightarrow>
               r = Inr ('''', 204)"
  proof (intro allI impI)
    fix stats w1 delete_stats w2
    assume "manager_cleanup (manager sc) (world s) = (Inr stats, w1)"
      and "manager_flush_runners (manager sc) ?mode w1 = (Inr delete_stats, w2)"
    from flush_returns[OF this] f r show "r = Inr ('''', 204)"
      by auto
  qed
  from 1 2 3 show ?thesis by blast
qed

lemma build_without_vm_prefix:
  assumes "openstack_configuration ''vm_prefix'' = None"
  shows "build env application_configuration openstack_configuration = Inl AttributeError"
proof (cases "build_server_config application_configuration openstack_configuration")
  case (Inl e)
  then have "e = AttributeError"
    by (auto simp: build_server_config_def getattr_def split: list.splits option.splits)
  with Inl show ?thesis
    by (simp add: build_def)
next
  case (Inr triple)
  with assms show ?thesis
    by (simp add: build_def getattr_def split: prod.splits)
qed

subsection \<open>C10: the flush never starts\<close>

text \<open>
  C10 says that the handler flushes the busy runners too exactly when \<^verbatim>\<open>flush-busy\<close> is
  \<open>True\<close> or \<open>true\<close>, and that it answers 204. The handler chooses the mode that
  way, but it does not get as far as the flush. As the OpenStack configuration it hands to
  \<^verbatim>\<open>RunnerScaler.build\<close> the object of class \<^verbatim>\<open>UserInfo\<close> that it has just
  constructed from a user name and a group, and \<^verbatim>\<open>build\<close> reads
  \<^verbatim>\<open>openstack_configuration.vm_prefix\<close> on it. For every request that finds the lock
  configured, whatever the value of \<^verbatim>\<open>flush-busy\<close>: when the object has no attribute
  \<^verbatim>\<open>vm_prefix\<close>, the handler ends in \<^verbatim>\<open>AttributeError\<close> and has made no call on a
  runner manager. Nothing is flushed and the response is not 204.
\<close>

theorem flush_runner_raises_attribute_error:
  assumes "user ''vm_prefix'' = None"
  shows "flush_runner True env app_config user flush_busy_str s = (Inl AttributeError, s)"
proof -
  from assms have "build env app_config user = Inl AttributeError"
    by (rule build_without_vm_prefix)
  then show ?thesis
    by (simp add: flush_runner_def)
qed

theorem flush_runner_raises_attribute_error_witness:
  "user_info ''ubuntu'' ''ubuntu'' ''vm_prefix'' = None
   \<and> flush_runner True fleet_build_env demo_app_config (user_info ''ubuntu'' ''ubuntu'')
         (Some ''true'') (start_sys [runner_a, runner_b])
       = (Inl AttributeError,
          \<lparr>world = [runner_a, runner_b], calls = [], issue_event_calls = []\<rparr>)
   \<and> flush_runner True fleet_build_env demo_app_config openstack_configuration_object
         (Some ''true'') (start_sys [runner_a, runner_b])
       = (Inr ('''', 204),
          \<lparr>world = [], calls = [Cleanup, FlushRunners FLUSH_BUSY], issue_event_calls = []\<rparr>)"
proof -
  have no_prefix: "user_info ''ubuntu'' ''ubuntu'' ''vm_prefix'' = None"
    by (simp add: user_info_def)
  from flush_runner_raises_attribute_error [where user = "user_info ''ubuntu'' ''ubuntu''", OF no_prefix]
  have raised: "flush_runner True fleet_build_env demo_app_config (user_info ''ubuntu'' ''ubuntu'')
         (Some ''true'') (start_sys [runner_a, runner_b])
       = (Inl AttributeError,
          \<lparr>world = [runner_a, runner_b], calls = [], issue_event_calls = []\<rparr>)"
    by (simp add: start_sys_def)
  have built: "build fleet_build_env demo_app_config openstack_configuration_object
       = Inr (fleet_scaler 3)"
    by (simp add: build_def build_server_config_def getattr_def fleet_build_env_def
          demo_app_config_def openstack_configuration_object_def fleet_scaler_def)
  have flushed: "flush_runner True fleet_build_env demo_app_config openstack_configuration_object
         (Some ''true'') (start_sys [runner_a, runner_b])
       = (Inr ('''', 204),
          \<lparr>world = [], calls = [Cleanup, FlushRunners FLUSH_BUSY], issue_event_calls = []\<rparr>)"
    by (simp add: flush_runner_def built flush_def call_manager_def fleet_scaler_def
          fleet_manager_def start_sys_def runner_a_def runner_b_def is_busy_def)
  from no_prefix raised flushed show ?thesis
    by (intro conjI)
qed

section \<open>Properties of the reactive consumer\<close>

lemma acks_justified_Nil: "acks_justified env []"
  by (simp add: acks_justified_def)

lemma acks_justified_snoc_other:
  assumes "acks_justified env tr" and "\<And>msg. e \<noteq> MsgAck msg"
  shows "acks_justified env (tr @ [e])"
  unfolding acks_justified_def
proof (intro allI impI)
  fix before msg after
  assume eq: "tr @ [e] = before @ MsgAck msg # after"
  show "payload msg = END_PROCESSING_PAYLOAD
        \<or> (\<exists>details. parse_raw env (payload msg) = Some details
              \<and> before \<noteq> [] \<and> last before = CheckJob (url details) (Inr True))"
  proof (cases after rule: rev_cases)
    case Nil
    with eq have "e = MsgAck msg" by simp
    with assms(2) show ?thesis by blast
  next
    case (snoc after' x)
    with eq have "tr = before @ MsgAck msg # after'" by simp
    with assms(1) show ?thesis
      unfolding acks_justified_def by blast
  qed
qed

lemma acks_justified_snoc_ack:
  assumes "acks_justified env tr"
    and "payload msg = END_PROCESSING_PAYLOAD
        \<or> (\<exists>details. parse_raw env (payload msg) = Some details
              \<and> tr \<noteq> [] \<and> last tr = CheckJob (url details) (Inr True))"
  shows "acks_justified env (tr @ [MsgAck msg])"
  unfolding acks_justified_def
proof (intro allI impI)
  fix before m after
  assume eq: "tr @ [MsgAck msg] = before @ MsgAck m # after"
  show "payload m = END_PROCESSING_PAYLOAD
        \<or> (\<exists>details. parse_raw env (payload m) = Some details
              \<and> before \<noteq> [] \<and> last before = CheckJob (url details) (Inr True))"
  proof (cases after rule: rev_cases)
    case Nil
    with eq have "m = msg" "before = tr" by simp_all
    with assms(2) show ?thesis by simp
  next
    case (snoc after' x)
    with eq have "tr = before @ MsgAck m # after'" by simp
    with assms(1) show ?thesis
      unfolding acks_justified_def by blast
  qed
qed

lemma msg_reject_justified:
  assumes "acks_justified env (trace s)" and "msg_reject msg requeue s = (r, s')"
  shows "acks_justified env (trace s')"
  using assms by (auto simp: msg_reject_def intro: acks_justified_snoc_other)

lemma msg_ack_justified:
  assumes "acks_justified env (trace s)" and "msg_ack msg s = (r, s')"
    and "payload msg = END_PROCESSING_PAYLOAD
        \<or> (\<exists>details. parse_raw env (payload msg) = Some details
              \<and> trace s \<noteq> [] \<and> last (trace s) = CheckJob (url details) (Inr True))"
  shows "acks_justified env (trace s')"
proof -
  from assms(2) have "trace s' = trace s @ [MsgAck msg]"
    by (auto simp: msg_ack_def)
  with acks_justified_snoc_ack[OF assms(1) assms(3)] show ?thesis
    by simp
qed

lemma check_justified:
  assumes "acks_justified env (trace s)" and "check_job_been_picked_up env job_url s = (r, s')"
  shows "acks_justified env (trace s')"
    and "trace s' \<noteq> [] \<and> last (trace s') = CheckJob job_url r"
  using assms by (auto simp: check_job_been_picked_up_def Let_def intro: acks_justified_snoc_other)

lemma poll_picked_up_justified:
  assumes "acks_justified env (trace s)"
    and "parse_raw env (payload msg) = Some details"
    and "poll_picked_up env (url details) msg n s = (r, s')"
  shows "acks_justified env (trace s')"
  using assms
proof (induction n arbitrary: s)
  case 0
  then show ?case
    by (auto dest: msg_reject_justified)
next
  case (Suc n)
  obtain a s1 where c: "check_job_been_picked_up env (url details) s = (a, s1)"
    by fastforce
  note j1 = check_justified[OF Suc.prems(1) c]
  show ?case
  proof (cases a)
    case (Inl e)
    with Suc.prems(3) c j1 show ?thesis by simp
  next
    case (Inr b)
    show ?thesis
    proof (cases b)
      case True
      with Inr Suc.prems(3) c have "msg_ack msg s1 = (r, s')" by simp
      moreover from j1(2) Inr True
      have "trace s1 \<noteq> [] \<and> last (trace s1) = CheckJob (url details) (Inr True)" by simp
      ultimately show ?thesis
        using msg_ack_justified[OF j1(1), of msg r s'] Suc.prems(2) by blast
    next
      case False
      with Inr Suc.prems(3) c
      have rec: "poll_picked_up env (url details) msg n (s1\<lparr>trace := trace s1 @ [SleepSeconds 30]\<rparr>) = (r, s')"
        by simp
      have "acks_justified env (trace (s1\<lparr>trace := trace s1 @ [SleepSeconds 30]\<rparr>))"
        using j1(1) by (simp add: acks_justified_snoc_other)
      from Suc.IH[OF this Suc.prems(2) rec] show ?thesis .
    qed
  qed
qed

lemma spawn_runner_justified:
  assumes "acks_justified env (trace s)"
    and "parse_raw env (payload msg) = Some details"
    and "spawn_runner env (url details) msg s = (r, s')"
  shows "acks_justified env (trace s')"
proof -
  let ?s1 = "s\<lparr>trace := trace s @ [SpawnCreateRunners]\<rparr>"
  have j: "acks_justified env (trace ?s1)"
    using assms(1) by (simp add: acks_justified_snoc_other)
  show ?thesis
  proof (cases "runner_manager_create_runners env")
    case (Inl e)
    with assms(3) have "s' = ?s1" by (simp add: spawn_runner_def)
    with j show ?thesis by simp
  next
    case (Inr ids)
    show ?thesis
    proof (cases "ids = []")
      case True
      with Inr assms(3) have "msg_reject msg True ?s1 = (r, s')"
        by (simp add: spawn_runner_def)
      from msg_reject_justified[OF j this] show ?thesis .
    next
      case False
      with Inr assms(3) have "poll_picked_up env (url details) msg 10 ?s1 = (r, s')"
        by (simp add: spawn_runner_def)
      from poll_picked_up_justified[OF j assms(2) this] show ?thesis .
    qed
  qed
qed

lemma consume_body_justified:
  assumes "acks_justified env (trace s)" and "consume_body env msg s = (st, s')"
  shows "acks_justified env (trace s')"
proof (cases "payload msg = END_PROCESSING_PAYLOAD")
  case True
  obtain r s1 where a: "msg_ack msg s = (r, s1)" by fastforce
  with True assms(2) have "s' = s1"
    by (auto simp: consume_body_def split: sum.splits)
  with msg_ack_justified[OF assms(1) a] True show ?thesis by simp
next
  case notend: False
  show ?thesis
  proof (cases "parse_raw env (payload msg)")
    case None
    obtain r s1 where a: "msg_reject msg False s = (r, s1)" by fastforce
    with None notend assms(2) have "s' = s1"
      by (auto simp: consume_body_def parse_job_details_def split: sum.splits)
    with msg_reject_justified[OF assms(1) a] show ?thesis by simp
  next
    case (Some details)
    then have p: "parse_job_details env msg s = (Inr details, s)"
      by (simp add: parse_job_details_def)
    show ?thesis
    proof (cases "validate_labels (str_lower env) (labels details) (supported_labels env)")
      case False
      obtain r s1 where a: "msg_reject msg False s = (r, s1)" by fastforce
      with False p notend assms(2) have "s' = s1"
        by (auto simp: consume_body_def split: sum.splits)
      with msg_reject_justified[OF assms(1) a] show ?thesis by simp
    next
      case True
      obtain a s1 where c: "check_job_been_picked_up env (url details) s = (a, s1)"
        by fastforce
      note j1 = check_justified[OF assms(1) c]
      show ?thesis
      proof (cases a)
        case (Inl e)
        with True p notend assms(2) c have "s' = s1"
          by (simp add: consume_body_def)
        with j1 show ?thesis by simp
      next
        case (Inr b)
        show ?thesis
        proof (cases b)
          case picked: True
          obtain r s2 where a: "msg_ack msg s1 = (r, s2)" by fastforce
          with picked Inr True p notend assms(2) c have "s' = s2"
            by (auto simp: consume_body_def split: sum.splits)
          moreover from j1(2) Inr picked
          have "trace s1 \<noteq> [] \<and> last (trace s1) = CheckJob (url details) (Inr True)" by simp
          ultimately show ?thesis
            using msg_ack_justified[OF j1(1) a] Some by blast
        next
          case notpicked: False
          obtain r s2 where sp: "spawn_runner env (url details) msg s1 = (r, s2)" by fastforce
          with notpicked Inr True p notend assms(2) c have "s' = s2"
            by (auto simp: consume_body_def split: sum.splits)
          with spawn_runner_justified[OF j1(1) Some sp] show ?thesis by simp
        qed
      qed
    qed
  qed
qed

lemma consume_loop_justified:
  assumes "acks_justified env (trace s)" and "consume_loop env queue s = (out, s')"
  shows "acks_justified env (trace s')"
  using assms
proof (induction env queue s rule: consume_loop.induct)
  case (1 env s)
  then show ?case by simp
next
  case (2 env queue s)
  then show ?case by simp
next
  case (3 env msg queue s)
  obtain st s1 where b: "consume_body env msg s = (st, s1)" by fastforce
  note j1 = consume_body_justified[OF "3.prems"(1) b]
  show ?case
  proof (cases st)
    case Continue
    with b "3.prems"(2) have "consume_loop env queue s1 = (out, s')" by simp
    from "3.IH"[OF b[symmetric] Continue j1 this] show ?thesis .
  next
    case Break
    with b "3.prems"(2) j1 show ?thesis by simp
  next
    case (Raise e)
    with b "3.prems"(2) j1 show ?thesis by simp
  qed
qed

subsection \<open>C2: a message is acknowledged only when dispatched, or when it is the sentinel\<close>

text \<open>
  C2. Whenever the consumer acknowledges a message, either the payload of the message is
  the sentinel \<^verbatim>\<open>__END__\<close>, or the message parses as job details and the call just before
  the acknowledgement was \<^verbatim>\<open>check_job_been_picked_up\<close> for the URL of that job, answering
  true. In every other outcome the message is rejected or left unacknowledged.
\<close>

theorem consume_acks_only_dispatched_or_sentinel:
  assumes "consume env queue = (out, s)"
    and "trace s = before @ MsgAck msg # after"
  shows "payload msg = END_PROCESSING_PAYLOAD
        \<or> (\<exists>details. parse_raw env (payload msg) = Some details
              \<and> before \<noteq> [] \<and> last before = CheckJob (url details) (Inr True))"
proof -
  obtain out0 where "consume_loop env queue \<lparr>trace = [], checks_made = 0\<rparr> = (out0, s)"
    using assms(1) by (auto simp: consume_def split: prod.splits consume_outcome.splits error.splits)
  from consume_loop_justified[OF _ this] have "acks_justified env (trace s)"
    by (simp add: acks_justified_Nil)
  with assms(2) show ?thesis
    unfolding acks_justified_def by blast
qed

theorem consume_acks_only_dispatched_or_sentinel_witness:
  "consume demo_env [Delivered job_msg]
     = (Finished,
        \<lparr>trace = [CheckJob ''https://h/jobs/99'' (Inr False), SpawnCreateRunners,
                  CheckJob ''https://h/jobs/99'' (Inr False), SleepSeconds 30,
                  CheckJob ''https://h/jobs/99'' (Inr True), MsgAck job_msg],
         checks_made = 3\<rparr>)
   \<and> payload job_msg \<noteq> END_PROCESSING_PAYLOAD
   \<and> (\<exists>details. parse_raw demo_env (payload job_msg) = Some details
          \<and> last [CheckJob ''https://h/jobs/99'' (Inr False), SpawnCreateRunners,
                   CheckJob ''https://h/jobs/99'' (Inr False), SleepSeconds 30,
                   CheckJob ''https://h/jobs/99'' (Inr True)]
              = CheckJob (url details) (Inr True))"
proof -
  let ?before = "[CheckJob ''https://h/jobs/99'' (Inr False), SpawnCreateRunners,
                  CheckJob ''https://h/jobs/99'' (Inr False), SleepSeconds 30,
                  CheckJob ''https://h/jobs/99'' (Inr True)]"
  have run: "consume demo_env [Delivered job_msg]
     = (Finished, \<lparr>trace = ?before @ [MsgAck job_msg], checks_made = 3\<rparr>)"
    by (simp add: consume_def consume_body_def parse_job_details_def spawn_runner_def
          check_job_been_picked_up_def msg_ack_def validate_labels_def ascii_lower_def ascii_lower_char_def
          demo_env_def job_msg_def END_PROCESSING_PAYLOAD_def Let_def eval_nat_numeral)
  have sentinel: "payload job_msg \<noteq> END_PROCESSING_PAYLOAD"
    by (simp add: job_msg_def END_PROCESSING_PAYLOAD_def)
  have "trace \<lparr>trace = ?before @ [MsgAck job_msg], checks_made = 3\<rparr>
          = ?before @ MsgAck job_msg # []"
    by simp
  from consume_acks_only_dispatched_or_sentinel [OF run this] sentinel
  have "\<exists>details. parse_raw demo_env (payload job_msg) = Some details
          \<and> last ?before = CheckJob (url details) (Inr True)"
    by blast
  with run sentinel show ?thesis
    by simp
qed

lemma failed_polls_Suc:
  "failed_polls job_url (Suc k)
     = CheckJob job_url (Inr False) # SleepSeconds 30 # failed_polls job_url k"
  by (simp add: failed_polls_def)

lemma failed_polls_0: "failed_polls job_url 0 = []"
  by (simp add: failed_polls_def)

lemma poll_picked_up_all_false:
  assumes "\<forall>j<n. platform_check_job_been_picked_up env (checks_made s + j) job_url = Inr False"
  shows "poll_picked_up env job_url msg n s
           = msg_reject msg True
               (s\<lparr>trace := trace s @ failed_polls job_url n,
                  checks_made := checks_made s + n\<rparr>)"
  using assms
proof (induction n arbitrary: s)
  case 0
  then show ?case by (simp add: failed_polls_0)
next
  case (Suc n)
  let ?s1 = "s\<lparr>trace := trace s @ [CheckJob job_url (Inr False)],
                checks_made := Suc (checks_made s)\<rparr>"
  let ?s2 = "?s1\<lparr>trace := trace ?s1 @ [SleepSeconds 30]\<rparr>"
  from Suc.prems have a0: "platform_check_job_been_picked_up env (checks_made s) job_url = Inr False"
    by (metis add.right_neutral zero_less_Suc)
  then have c: "check_job_been_picked_up env job_url s = (Inr False, ?s1)"
    by (simp add: check_job_been_picked_up_def Let_def)
  have "\<forall>j<n. platform_check_job_been_picked_up env (checks_made ?s2 + j) job_url = Inr False"
  proof (intro allI impI)
    fix j assume "j < n"
    then have "Suc j < Suc n" by simp
    with Suc.prems have "platform_check_job_been_picked_up env (checks_made s + Suc j) job_url = Inr False"
      by blast
    then show "platform_check_job_been_picked_up env (checks_made ?s2 + j) job_url = Inr False"
      by simp
  qed
  from Suc.IH[OF this] c show ?case
    by (simp add: failed_polls_Suc)
qed

lemma poll_picked_up_first_true:
  assumes "k < n"
    and "\<forall>j<k. platform_check_job_been_picked_up env (checks_made s + j) job_url = Inr False"
    and "platform_check_job_been_picked_up env (checks_made s + k) job_url = Inr True"
  shows "poll_picked_up env job_url msg n s
           = msg_ack msg
               (s\<lparr>trace := trace s @ failed_polls job_url k @ [CheckJob job_url (Inr True)],
                  checks_made := checks_made s + k + 1\<rparr>)"
  using assms
proof (induction n arbitrary: s k)
  case 0
  then show ?case by simp
next
  case (Suc n)
  show ?case
  proof (cases k)
    case 0
    with Suc.prems(3)
    have "check_job_been_picked_up env job_url s
            = (Inr True, s\<lparr>trace := trace s @ [CheckJob job_url (Inr True)],
                            checks_made := Suc (checks_made s)\<rparr>)"
      by (simp add: check_job_been_picked_up_def Let_def)
    with 0 show ?thesis
      by (simp add: failed_polls_0)
  next
    case (Suc k')
    let ?s1 = "s\<lparr>trace := trace s @ [CheckJob job_url (Inr False)],
                  checks_made := Suc (checks_made s)\<rparr>"
    let ?s2 = "?s1\<lparr>trace := trace ?s1 @ [SleepSeconds 30]\<rparr>"
    from Suc.prems(2) Suc
    have a0: "platform_check_job_been_picked_up env (checks_made s) job_url = Inr False"
      by (metis add.right_neutral zero_less_Suc)
    then have c: "check_job_been_picked_up env job_url s = (Inr False, ?s1)"
      by (simp add: check_job_been_picked_up_def Let_def)
    have lt: "k' < n"
      using Suc.prems(1) Suc by simp
    have before: "\<forall>j<k'. platform_check_job_been_picked_up env (checks_made ?s2 + j) job_url = Inr False"
    proof (intro allI impI)
      fix j assume "j < k'"
      then have "Suc j < k" using Suc by simp
      with Suc.prems(2)
      have "platform_check_job_been_picked_up env (checks_made s + Suc j) job_url = Inr False"
        by blast
      then show "platform_check_job_been_picked_up env (checks_made ?s2 + j) job_url = Inr False"
        by simp
    qed
    have at: "platform_check_job_been_picked_up env (checks_made ?s2 + k') job_url = Inr True"
      using Suc.prems(3) Suc by simp
    from Suc.IH[OF lt before at] c Suc show ?thesis
      by (simp add: failed_polls_Suc)
  qed
qed

lemma poll_picked_up_grows:
  assumes "poll_picked_up env job_url msg n s = (r, s')"
  shows "\<exists>new. trace s' = trace s @ new
           \<and> (\<forall>m. MsgReject m False \<notin> set new)
           \<and> length (filter is_check new) \<le> n"
  using assms
proof (induction n arbitrary: s)
  case 0
  then show ?case
    by (auto simp: msg_reject_def)
next
  case (Suc n)
  let ?a = "platform_check_job_been_picked_up env (checks_made s) job_url"
  let ?s1 = "s\<lparr>trace := trace s @ [CheckJob job_url ?a],
                checks_made := Suc (checks_made s)\<rparr>"
  have c: "check_job_been_picked_up env job_url s = (?a, ?s1)"
    by (simp add: check_job_been_picked_up_def Let_def)
  show ?case
  proof (cases ?a)
    case (Inl e)
    with Suc.prems c have "trace s' = trace s @ [CheckJob job_url ?a]"
      by auto
    then show ?thesis by simp
  next
    case (Inr b)
    show ?thesis
    proof (cases b)
      case True
      with Inr Suc.prems c have "trace s' = trace s @ [CheckJob job_url ?a, MsgAck msg]"
        by (auto simp: msg_ack_def)
      then show ?thesis by simp
    next
      case False
      let ?s2 = "?s1\<lparr>trace := trace ?s1 @ [SleepSeconds 30]\<rparr>"
      from False Inr Suc.prems c have "poll_picked_up env job_url msg n ?s2 = (r, s')"
        by simp
      from Suc.IH[OF this] obtain new where new: "trace s' = trace ?s2 @ new"
        "\<forall>m. MsgReject m False \<notin> set new" "length (filter is_check new) \<le> n"
        by blast
      then have "trace s' = trace s @ (CheckJob job_url ?a # SleepSeconds 30 # new)"
        by simp
      moreover have "\<forall>m. MsgReject m False \<notin> set (CheckJob job_url ?a # SleepSeconds 30 # new)"
        using new(2) by simp
      moreover have "length (filter is_check (CheckJob job_url ?a # SleepSeconds 30 # new)) \<le> Suc n"
        using new(3) by simp
      ultimately show ?thesis by blast
    qed
  qed
qed

lemma spawn_runner_grows:
  assumes "spawn_runner env job_url msg s = (r, s')"
  shows "\<exists>new. trace s' = trace s @ new
           \<and> (\<forall>m. MsgReject m False \<notin> set new)
           \<and> length (filter is_check new) \<le> 10"
proof -
  let ?s1 = "s\<lparr>trace := trace s @ [SpawnCreateRunners]\<rparr>"
  show ?thesis
  proof (cases "runner_manager_create_runners env")
    case (Inl e)
    with assms have "trace s' = trace s @ [SpawnCreateRunners]"
      by (auto simp: spawn_runner_def)
    then show ?thesis by simp
  next
    case (Inr ids)
    show ?thesis
    proof (cases "ids = []")
      case True
      with Inr assms have "trace s' = trace s @ [SpawnCreateRunners, MsgReject msg True]"
        by (auto simp: spawn_runner_def msg_reject_def)
      then show ?thesis by simp
    next
      case False
      with Inr assms have "poll_picked_up env job_url msg 10 ?s1 = (r, s')"
        by (simp add: spawn_runner_def)
      from poll_picked_up_grows[OF this] obtain new where new: "trace s' = trace ?s1 @ new"
        "\<forall>m. MsgReject m False \<notin> set new" "length (filter is_check new) \<le> 10"
        by blast
      then have "trace s' = trace s @ (SpawnCreateRunners # new)"
        by simp
      moreover have "\<forall>m. MsgReject m False \<notin> set (SpawnCreateRunners # new)"
        using new(2) by simp
      moreover have "length (filter is_check (SpawnCreateRunners # new)) \<le> 10"
        using new(3) by simp
      ultimately show ?thesis by blast
    qed
  qed
qed

subsection \<open>C5: at most ten polls after the runner is created\<close>

text \<open>
  C5. In \<^verbatim>\<open>_spawn_runner\<close>, \<^verbatim>\<open>check_job_been_picked_up\<close> is called at most ten times.
  When \<^verbatim>\<open>create_runners(1)\<close> returns an empty list, the message is rejected with requeue
  and nothing is polled. When it returns a non-empty list and the poll number \<open>k\<close>
  (from 0, \<open>k < 10\<close>) is the first to answer true, what happens is: \<open>k\<close> polls
  answering false, each followed by a sleep of 30 seconds, the poll answering true, and
  the acknowledgement of the message. When all ten polls answer false, each is followed
  by its sleep of 30 seconds and the message is then rejected with requeue.
\<close>

theorem spawn_runner_polls_at_most_ten_times:
  assumes "spawn_runner env job_url msg s = (r, s')"
  shows "(\<exists>new. trace s' = trace s @ new \<and> length (filter is_check new) \<le> 10)
       \<and> (\<forall>ids. runner_manager_create_runners env = Inr ids \<longrightarrow>
            (ids = [] \<longrightarrow>
               trace s' = trace s @ [SpawnCreateRunners, MsgReject msg True])
          \<and> (ids \<noteq> [] \<longrightarrow>
               (\<forall>k<10.
                  (\<forall>j<k. platform_check_job_been_picked_up env (checks_made s + j) job_url
                           = Inr False)
                  \<and> platform_check_job_been_picked_up env (checks_made s + k) job_url = Inr True
                  \<longrightarrow> trace s' = trace s @ SpawnCreateRunners # failed_polls job_url k
                                    @ [CheckJob job_url (Inr True), MsgAck msg]))
          \<and> (ids \<noteq> [] \<longrightarrow>
               (\<forall>j<10. platform_check_job_been_picked_up env (checks_made s + j) job_url
                          = Inr False)
               \<longrightarrow> trace s' = trace s @ SpawnCreateRunners # failed_polls job_url 10
                                 @ [MsgReject msg True]))"
proof -
  let ?s1 = "s\<lparr>trace := trace s @ [SpawnCreateRunners]\<rparr>"
  have bound: "\<exists>new. trace s' = trace s @ new \<and> length (filter is_check new) \<le> 10"
    using spawn_runner_grows[OF assms] by blast
  have rest: "(ids = [] \<longrightarrow>
               trace s' = trace s @ [SpawnCreateRunners, MsgReject msg True])
          \<and> (ids \<noteq> [] \<longrightarrow>
               (\<forall>k<10.
                  (\<forall>j<k. platform_check_job_been_picked_up env (checks_made s + j) job_url
                           = Inr False)
                  \<and> platform_check_job_been_picked_up env (checks_made s + k) job_url = Inr True
                  \<longrightarrow> trace s' = trace s @ SpawnCreateRunners # failed_polls job_url k
                                    @ [CheckJob job_url (Inr True), MsgAck msg]))
          \<and> (ids \<noteq> [] \<longrightarrow>
               (\<forall>j<10. platform_check_job_been_picked_up env (checks_made s + j) job_url
                          = Inr False)
               \<longrightarrow> trace s' = trace s @ SpawnCreateRunners # failed_polls job_url 10
                                 @ [MsgReject msg True])"
    if ids: "runner_manager_create_runners env = Inr ids" for ids
  proof (intro conjI impI allI)
    assume "ids = []"
    with ids assms show "trace s' = trace s @ [SpawnCreateRunners, MsgReject msg True]"
      by (auto simp: spawn_runner_def msg_reject_def)
  next
    fix k
    assume ne: "ids \<noteq> []" and k: "k < 10"
      and a: "(\<forall>j<k. platform_check_job_been_picked_up env (checks_made s + j) job_url
                           = Inr False)
         \<and> platform_check_job_been_picked_up env (checks_made s + k) job_url = Inr True"
    from ne ids assms have p: "poll_picked_up env job_url msg 10 ?s1 = (r, s')"
      by (simp add: spawn_runner_def)
    have "poll_picked_up env job_url msg 10 ?s1
           = msg_ack msg
               (?s1\<lparr>trace := trace ?s1 @ failed_polls job_url k @ [CheckJob job_url (Inr True)],
                    checks_made := checks_made ?s1 + k + 1\<rparr>)"
      using a by (intro poll_picked_up_first_true[OF k]) simp_all
    with p show "trace s' = trace s @ SpawnCreateRunners # failed_polls job_url k
                                    @ [CheckJob job_url (Inr True), MsgAck msg]"
      by (auto simp: msg_ack_def)
  next
    assume ne: "ids \<noteq> []"
      and a: "\<forall>j<10. platform_check_job_been_picked_up env (checks_made s + j) job_url
                          = Inr False"
    from ne ids assms have p: "poll_picked_up env job_url msg 10 ?s1 = (r, s')"
      by (simp add: spawn_runner_def)
    have "poll_picked_up env job_url msg 10 ?s1
           = msg_reject msg True
               (?s1\<lparr>trace := trace ?s1 @ failed_polls job_url 10,
                    checks_made := checks_made ?s1 + 10\<rparr>)"
      using a by (intro poll_picked_up_all_false) simp
    with p show "trace s' = trace s @ SpawnCreateRunners # failed_polls job_url 10
                                 @ [MsgReject msg True]"
      by (auto simp: msg_reject_def)
  qed
  from bound rest show ?thesis by blast
qed

theorem spawn_runner_polls_at_most_ten_times_witness:
  "spawn_runner demo_env ''https://h/jobs/99'' job_msg \<lparr>trace = [], checks_made = 1\<rparr>
     = (Inr (),
        \<lparr>trace = [SpawnCreateRunners, CheckJob ''https://h/jobs/99'' (Inr False),
                  SleepSeconds 30, CheckJob ''https://h/jobs/99'' (Inr True), MsgAck job_msg],
         checks_made = 3\<rparr>)
   \<and> runner_manager_create_runners demo_env = Inr [''unit-0-r-abc'']
   \<and> platform_check_job_been_picked_up demo_env 1 ''https://h/jobs/99'' = Inr False
   \<and> platform_check_job_been_picked_up demo_env 2 ''https://h/jobs/99'' = Inr True
   \<and> [SpawnCreateRunners, CheckJob ''https://h/jobs/99'' (Inr False),
        SleepSeconds 30, CheckJob ''https://h/jobs/99'' (Inr True), MsgAck job_msg]
       = SpawnCreateRunners # failed_polls ''https://h/jobs/99'' 1
           @ [CheckJob ''https://h/jobs/99'' (Inr True), MsgAck job_msg]"
proof -
  let ?u = "''https://h/jobs/99''"
  let ?s = "\<lparr>trace = [], checks_made = 1\<rparr>"
  let ?tr = "[SpawnCreateRunners, CheckJob ?u (Inr False), SleepSeconds 30,
              CheckJob ?u (Inr True), MsgAck job_msg]"
  have run: "spawn_runner demo_env ?u job_msg ?s = (Inr (), \<lparr>trace = ?tr, checks_made = 3\<rparr>)"
    by (simp add: spawn_runner_def check_job_been_picked_up_def msg_ack_def
          demo_env_def job_msg_def Let_def eval_nat_numeral)
  have created: "runner_manager_create_runners demo_env = Inr [''unit-0-r-abc'']"
    by (simp add: demo_env_def)
  have a1: "platform_check_job_been_picked_up demo_env 1 ?u = Inr False"
    and a2: "platform_check_job_been_picked_up demo_env 2 ?u = Inr True"
    by (simp_all add: demo_env_def)
  have answers: "(\<forall>j<1. platform_check_job_been_picked_up demo_env (checks_made ?s + j) ?u
                     = Inr False)
       \<and> platform_check_job_been_picked_up demo_env (checks_made ?s + 1) ?u = Inr True"
    by (simp add: demo_env_def)
  from spawn_runner_polls_at_most_ten_times [OF run]
  have "\<forall>ids. runner_manager_create_runners demo_env = Inr ids \<longrightarrow> ids \<noteq> [] \<longrightarrow>
          (\<forall>k<10.
             (\<forall>j<k. platform_check_job_been_picked_up demo_env (checks_made ?s + j) ?u
                      = Inr False)
             \<and> platform_check_job_been_picked_up demo_env (checks_made ?s + k) ?u = Inr True
             \<longrightarrow> trace \<lparr>trace = ?tr, checks_made = 3\<rparr>
                   = trace ?s @ SpawnCreateRunners # failed_polls ?u k
                       @ [CheckJob ?u (Inr True), MsgAck job_msg])"
    by blast
  from this[rule_format, OF created _ _ answers]
  have "trace \<lparr>trace = ?tr, checks_made = 3\<rparr>
          = trace ?s @ SpawnCreateRunners # failed_polls ?u 1
              @ [CheckJob ?u (Inr True), MsgAck job_msg]"
    by simp
  then have "?tr = SpawnCreateRunners # failed_polls ?u 1 @ [CheckJob ?u (Inr True), MsgAck job_msg]"
    by simp
  with run created a1 a2 show ?thesis
    by (intro conjI)
qed

subsection \<open>C6: unsupported labels are rejected without requeue\<close>

text \<open>
  C6. For every job message (a message that is not the sentinel and parses as job
  details) with labels \<open>L\<close>, and supported labels \<open>S\<close>: the consumer rejects the
  message without requeue if and only if the lower-cased \<open>L\<close> is not a subset of the
  lower-cased \<open>S\<close>. In that case the rejection is all it does for the message: it asks
  the platform nothing and creates no runner, and the loop continues. When the
  lower-cased \<open>L\<close> is a subset, the next thing it does is the dispatch check for the
  URL of the job. The case of a label is folded by \<^verbatim>\<open>str.lower()\<close>, as the code does
  it, and the statement holds for every function in its place: nothing is assumed of the
  characters of a label.
\<close>

theorem consume_body_rejects_unsupported_labels:
  assumes "payload msg \<noteq> END_PROCESSING_PAYLOAD"
    and "parse_raw env (payload msg) = Some details"
    and "consume_body env msg s = (st, s')"
  shows "\<exists>new. trace s' = trace s @ new
           \<and> (MsgReject msg False \<in> set new
                \<longleftrightarrow> \<not> str_lower env ` labels details \<subseteq> str_lower env ` supported_labels env)
           \<and> (\<not> str_lower env ` labels details \<subseteq> str_lower env ` supported_labels env \<longrightarrow>
                new = [MsgReject msg False]
                \<and> st = (if settle_raises msg then Raise KombuError else Continue))
           \<and> (str_lower env ` labels details \<subseteq> str_lower env ` supported_labels env \<longrightarrow>
                (\<exists>rest. new = CheckJob (url details)
                                 (platform_check_job_been_picked_up env (checks_made s) (url details))
                               # rest))"
proof -
  have p: "parse_job_details env msg s = (Inr details, s)"
    using assms(2) by (simp add: parse_job_details_def)
  show ?thesis
  proof (cases "str_lower env ` labels details \<subseteq> str_lower env ` supported_labels env")
    case False
    then have "\<not> validate_labels (str_lower env) (labels details) (supported_labels env)"
      by (simp add: validate_labels_def)
    with p assms(1,3) have "trace s' = trace s @ [MsgReject msg False]"
      and "st = (if settle_raises msg then Raise KombuError else Continue)"
      by (auto simp: consume_body_def msg_reject_def split: if_splits)
    with False show ?thesis by simp
  next
    case True
    then have v: "validate_labels (str_lower env) (labels details) (supported_labels env)"
      by (simp add: validate_labels_def)
    let ?a = "platform_check_job_been_picked_up env (checks_made s) (url details)"
    let ?s1 = "s\<lparr>trace := trace s @ [CheckJob (url details) ?a],
                  checks_made := Suc (checks_made s)\<rparr>"
    have c: "check_job_been_picked_up env (url details) s = (?a, ?s1)"
      by (simp add: check_job_been_picked_up_def Let_def)
    have "\<exists>rest. trace s' = trace ?s1 @ rest \<and> MsgReject msg False \<notin> set rest"
    proof (cases ?a)
      case (Inl e)
      with v p c assms(1,3) have "s' = ?s1"
        by (simp add: consume_body_def)
      then show ?thesis by simp
    next
      case (Inr b)
      show ?thesis
      proof (cases b)
        case picked: True
        with Inr v p c assms(1,3) have "trace s' = trace ?s1 @ [MsgAck msg]"
          by (auto simp: consume_body_def msg_ack_def split: if_splits)
        then show ?thesis by simp
      next
        case notpicked: False
        obtain r s2 where sp: "spawn_runner env (url details) msg ?s1 = (r, s2)"
          by fastforce
        with notpicked Inr v p c assms(1,3) have "s' = s2"
          by (auto simp: consume_body_def split: sum.splits)
        with spawn_runner_grows[OF sp] show ?thesis
          by blast
      qed
    qed
    then obtain rest where "trace s' = trace s @ (CheckJob (url details) ?a # rest)"
      and "MsgReject msg False \<notin> set (CheckJob (url details) ?a # rest)"
      by auto
    with True show ?thesis by blast
  qed
qed

theorem consume_body_rejects_unsupported_labels_witness:
  "payload arm_msg \<noteq> END_PROCESSING_PAYLOAD
   \<and> parse_raw demo_env (payload arm_msg) = Some \<lparr>labels = {''arm64''}, url = ''https://h/jobs/7''\<rparr>
   \<and> consume_body demo_env arm_msg \<lparr>trace = [], checks_made = 0\<rparr>
       = (Continue, \<lparr>trace = [MsgReject arm_msg False], checks_made = 0\<rparr>)
   \<and> \<not> ascii_lower ` {''arm64''} \<subseteq> ascii_lower ` supported_labels demo_env
   \<and> ascii_lower ` {''X64''} \<subseteq> ascii_lower ` supported_labels demo_env
   \<and> (\<exists>new. [MsgReject arm_msg False] = new \<and> MsgReject arm_msg False \<in> set new)
   \<and> consume_body accent_env accent_msg \<lparr>trace = [], checks_made = 0\<rparr>
       = (Continue,
          \<lparr>trace = [CheckJob ''https://h/jobs/5'' (Inr True), MsgAck accent_msg],
           checks_made = 1\<rparr>)"
proof -
  let ?s = "\<lparr>trace = [], checks_made = 0\<rparr>"
  let ?details = "\<lparr>labels = {''arm64''}, url = ''https://h/jobs/7''\<rparr>"
  have sentinel: "payload arm_msg \<noteq> END_PROCESSING_PAYLOAD"
    by (simp add: arm_msg_def END_PROCESSING_PAYLOAD_def)
  have parsed: "parse_raw demo_env (payload arm_msg) = Some ?details"
    by (simp add: demo_env_def arm_msg_def)
  have lower_of: "str_lower demo_env = ascii_lower"
    by (simp add: demo_env_def)
  have unsupported: "\<not> ascii_lower ` {''arm64''} \<subseteq> ascii_lower ` supported_labels demo_env"
    by (simp add: demo_env_def ascii_lower_def ascii_lower_char_def)
  have supported: "ascii_lower ` {''X64''} \<subseteq> ascii_lower ` supported_labels demo_env"
    by (simp add: demo_env_def ascii_lower_def ascii_lower_char_def)
  have run: "consume_body demo_env arm_msg ?s
       = (Continue, \<lparr>trace = [MsgReject arm_msg False], checks_made = 0\<rparr>)"
    using sentinel parsed unsupported
    by (simp add: consume_body_def parse_job_details_def validate_labels_def msg_reject_def
          arm_msg_def lower_of)
  from consume_body_rejects_unsupported_labels [OF sentinel parsed run] unsupported
  have rejected: "\<exists>new. [MsgReject arm_msg False] = new \<and> MsgReject arm_msg False \<in> set new"
    by (auto simp: lower_of)
  have accent: "consume_body accent_env accent_msg ?s
       = (Continue,
          \<lparr>trace = [CheckJob ''https://h/jobs/5'' (Inr True), MsgAck accent_msg],
           checks_made = 1\<rparr>)"
    by (simp add: consume_body_def parse_job_details_def validate_labels_def
          check_job_been_picked_up_def msg_ack_def accent_env_def accent_msg_def
          END_PROCESSING_PAYLOAD_def Let_def)
  from sentinel parsed run unsupported supported rejected accent show ?thesis
    by (intro conjI)
qed

subsection \<open>C7: a message that does not parse\<close>

text \<open>
  C7 says that after rejecting a message that fails to parse, the consumer continues with
  the next message. It does not: \<^verbatim>\<open>_parse_job_details\<close> raises \<^verbatim>\<open>JobError\<close> after the
  rejection, and nothing in \<^verbatim>\<open>consume\<close> catches it. With a message that does not parse
  followed by the sentinel, the sentinel is never fetched (alone, it would be acknowledged
  and end the loop cleanly).
\<close>

theorem consume_poison_message_counterexample:
  "consume demo_env [Delivered poison_msg, Delivered end_msg]
     = (Failed JobError, \<lparr>trace = [MsgReject poison_msg False], checks_made = 0\<rparr>)
   \<and> consume demo_env [Delivered end_msg]
     = (Finished, \<lparr>trace = [MsgAck end_msg], checks_made = 0\<rparr>)
   \<and> fst (consume_body demo_env poison_msg \<lparr>trace = [], checks_made = 0\<rparr>) = Raise JobError"
  by (simp add: consume_def consume_body_def parse_job_details_def msg_reject_def msg_ack_def
        demo_env_def poison_msg_def end_msg_def END_PROCESSING_PAYLOAD_def)

text \<open>
  C7, amended. For every message whose payload is not the sentinel and fails to parse as
  job details, the consumer rejects the message without requeue and then raises
  \<^verbatim>\<open>JobError\<close> out of \<^verbatim>\<open>consume\<close> (\<^verbatim>\<open>QueueError\<close> when the broker fails on the
  rejection): the loop ends there, at whatever point of the loop the message arrives, and
  no later message of the queue is fetched.
\<close>

theorem consume_poison_message_raises:
  assumes "payload msg \<noteq> END_PROCESSING_PAYLOAD"
    and "parse_raw env (payload msg) = None"
  shows "consume_body env msg s
           = (Raise (if settle_raises msg then KombuError else JobError),
              s\<lparr>trace := trace s @ [MsgReject msg False]\<rparr>)
       \<and> consume_loop env (Delivered msg # queue) s
           = (Failed (if settle_raises msg then KombuError else JobError),
              s\<lparr>trace := trace s @ [MsgReject msg False]\<rparr>)
       \<and> consume env (Delivered msg # queue)
           = (Failed (if settle_raises msg then QueueError else JobError),
              \<lparr>trace = [MsgReject msg False], checks_made = 0\<rparr>)"
proof -
  have body: "consume_body env msg s
           = (Raise (if settle_raises msg then KombuError else JobError),
              s\<lparr>trace := trace s @ [MsgReject msg False]\<rparr>)" for s
    using assms by (simp add: consume_body_def parse_job_details_def msg_reject_def)
  then have loop: "consume_loop env (Delivered msg # queue) s
           = (Failed (if settle_raises msg then KombuError else JobError),
              s\<lparr>trace := trace s @ [MsgReject msg False]\<rparr>)" for s
    by simp
  have "consume env (Delivered msg # queue)
           = (Failed (if settle_raises msg then QueueError else JobError),
              \<lparr>trace = [MsgReject msg False], checks_made = 0\<rparr>)"
    unfolding consume_def loop by simp
  with body loop show ?thesis by blast
qed

theorem consume_poison_message_raises_witness:
  "payload poison_msg \<noteq> END_PROCESSING_PAYLOAD
   \<and> parse_raw demo_env (payload poison_msg) = None
   \<and> consume demo_env [Delivered poison_msg, Delivered job_msg]
       = (Failed JobError, \<lparr>trace = [MsgReject poison_msg False], checks_made = 0\<rparr>)"
proof -
  have sentinel: "payload poison_msg \<noteq> END_PROCESSING_PAYLOAD"
    by (simp add: poison_msg_def END_PROCESSING_PAYLOAD_def)
  have unparsed: "parse_raw demo_env (payload poison_msg) = None"
    by (simp add: demo_env_def poison_msg_def)
  from consume_poison_message_raises [OF sentinel unparsed, of "\<lparr>trace = [], checks_made = 0\<rparr>" "[Delivered job_msg]"]
  have "consume demo_env [Delivered poison_msg, Delivered job_msg]
       = (Failed JobError, \<lparr>trace = [MsgReject poison_msg False], checks_made = 0\<rparr>)"
    by (simp add: poison_msg_def)
  with sentinel unparsed show ?thesis
    by (intro conjI)
qed

section \<open>Properties of the OpenStack runner manager\<close>

lemma sort_by_health_unhealthy:
  "unhealthy (sort_by_health env instances acc)
     = unhealthy acc @ filter (\<lambda>r. check_runner env r = Some False) instances"
  by (induction instances arbitrary: acc) (auto split: option.splits bool.splits)

lemma verdict_unhealthy: "verdict env r = UNHEALTHY \<longleftrightarrow> check_runner env r = Some False"
  by (auto simp: verdict_def split: option.splits bool.splits)

lemma deleted_append: "deleted (xs @ ys) = deleted xs @ deleted ys"
  by (induction xs rule: deleted.induct) simp_all

lemma delete_runner_deleted:
  "deleted (snd (delete_runner env r cs)) = deleted cs @ [instance_id r]"
  by (simp add: delete_runner_def deleted_append)

lemma delete_unhealthy_deleted:
  "deleted (snd (delete_unhealthy env runners extracted cs))
     = deleted cs @ map instance_id runners"
proof (induction runners arbitrary: extracted cs)
  case Nil
  then show ?case by simp
next
  case (Cons r runners)
  obtain p cs1 where d: "delete_runner env r cs = (p, cs1)"
    by fastforce
  then have "deleted cs1 = deleted cs @ [instance_id r]"
    using delete_runner_deleted[of env r cs] by simp
  with d Cons.IH show ?case
    by (simp split: option.splits)
qed

subsection \<open>C4: cleanup deletes exactly the unhealthy runners\<close>

text \<open>
  C4. For every call of \<^verbatim>\<open>cleanup\<close> that obtains the list of instances, the runners on
  which it calls \<^verbatim>\<open>delete_instance\<close> are exactly those whose health verdict is
  \<open>UNHEALTHY\<close>, in the order of the list: every unhealthy runner is deleted, and (runner
  names being distinct) no runner whose verdict is \<open>HEALTHY\<close> or \<open>UNKNOWN\<close> is.
\<close>

theorem cleanup_deletes_exactly_the_unhealthy:
  assumes "get_instances env = Inr instances"
  shows "deleted (snd (cleanup env cs))
           = deleted cs @ map instance_id (filter (\<lambda>r. verdict env r = UNHEALTHY) instances)
       \<and> (distinct (map instance_id instances) \<longrightarrow>
            (\<forall>r \<in> set instances.
               instance_id r \<in> set (deleted (snd (cleanup env [])))
               \<longleftrightarrow> verdict env r = UNHEALTHY))"
proof -
  let ?bad = "filter (\<lambda>r. verdict env r = UNHEALTHY) instances"
  have h: "get_runners_health env
             = Inr (sort_by_health env instances \<lparr>healthy = [], unhealthy = [], unknown = []\<rparr>)"
    using assms by (simp add: get_runners_health_def)
  have u: "unhealthy (sort_by_health env instances \<lparr>healthy = [], unhealthy = [], unknown = []\<rparr>)
             = ?bad"
    by (simp add: sort_by_health_unhealthy verdict_unhealthy)
  have 1: "deleted (snd (cleanup env cs)) = deleted cs @ map instance_id ?bad" for cs
  proof -
    obtain ex cs1 where d: "delete_unhealthy env ?bad [] cs = (ex, cs1)"
      by fastforce
    then have "deleted cs1 = deleted cs @ map instance_id ?bad"
      using delete_unhealthy_deleted[of env ?bad "[]" cs] by simp
    moreover have "snd (cleanup env cs) = cs1 @ [CloudCleanup]"
      using h u d by (simp add: cleanup_def)
    ultimately show ?thesis
      by (simp add: deleted_append)
  qed
  have 2: "\<forall>r \<in> set instances.
             instance_id r \<in> set (deleted (snd (cleanup env []))) \<longleftrightarrow> verdict env r = UNHEALTHY"
    if dist: "distinct (map instance_id instances)"
  proof
    fix r assume r: "r \<in> set instances"
    have inj: "inj_on instance_id (set instances)"
      using dist by (simp add: distinct_map)
    have del: "deleted (snd (cleanup env [])) = map instance_id ?bad"
      using 1[of "[]"] by simp
    show "instance_id r \<in> set (deleted (snd (cleanup env []))) \<longleftrightarrow> verdict env r = UNHEALTHY"
    proof
      assume "instance_id r \<in> set (deleted (snd (cleanup env [])))"
      then obtain r' where r': "r' \<in> set instances" "verdict env r' = UNHEALTHY"
        "instance_id r' = instance_id r"
        unfolding del by auto
      with inj r have "r' = r" by (auto dest: inj_onD)
      with r' show "verdict env r = UNHEALTHY" by simp
    next
      assume "verdict env r = UNHEALTHY"
      with r show "instance_id r \<in> set (deleted (snd (cleanup env [])))"
        unfolding del by auto
    qed
  qed
  from 1 2 show ?thesis by blast
qed

theorem cleanup_deletes_exactly_the_unhealthy_witness:
  "get_instances three_runner_cloud = Inr three_runners
   \<and> distinct (map instance_id three_runners)
   \<and> map (verdict three_runner_cloud) three_runners = [HEALTHY, UNHEALTHY, UNKNOWN]
   \<and> cleanup three_runner_cloud []
       = (Inr [], [SshConnect ''test-unhealthy0'', DeleteInstance ''test-unhealthy0'',
                   CloudCleanup])
   \<and> deleted (snd (cleanup three_runner_cloud [])) = [''test-unhealthy0'']"
proof -
  have instances: "get_instances three_runner_cloud = Inr three_runners"
    by (simp add: three_runner_cloud_def)
  have names: "distinct (map instance_id three_runners)"
    by (simp add: three_runners_def)
  have verdicts: "map (verdict three_runner_cloud) three_runners = [HEALTHY, UNHEALTHY, UNKNOWN]"
    by (simp add: verdict_def three_runner_cloud_def three_runners_def)
  have run: "cleanup three_runner_cloud []
       = (Inr [], [SshConnect ''test-unhealthy0'', DeleteInstance ''test-unhealthy0'',
                   CloudCleanup])"
    by (simp add: cleanup_def get_runners_health_def delete_runner_def
          three_runner_cloud_def three_runners_def)
  from cleanup_deletes_exactly_the_unhealthy [OF instances, of "[]"]
  have "deleted (snd (cleanup three_runner_cloud []))
          = map instance_id (filter (\<lambda>r. verdict three_runner_cloud r = UNHEALTHY) three_runners)"
    by simp
  then have "deleted (snd (cleanup three_runner_cloud [])) = [''test-unhealthy0'']"
    by (simp add: verdict_def three_runner_cloud_def three_runners_def)
  with instances names verdicts run show ?thesis
    by (intro conjI)
qed

section \<open>Properties of the creation of runners\<close>

lemma wait_until_ready_result:
  "fst (wait_until_ready env identity schedule n cs)
     \<longleftrightarrow> (\<exists>k < length schedule. is_ready (get_runner_health env identity (n + k)))"
proof (induction schedule arbitrary: n cs)
  case Nil
  then show ?case by simp
next
  case (Cons w schedule)
  show ?case
  proof (cases "is_ready (get_runner_health env identity n)")
    case True
    then have "\<exists>k < length (w # schedule). is_ready (get_runner_health env identity (n + k))"
      by (intro exI[of _ 0]) simp
    with True show ?thesis by simp
  next
    case False
    have "(\<exists>k < length (w # schedule). is_ready (get_runner_health env identity (n + k)))
          \<longleftrightarrow> (\<exists>k < length schedule. is_ready (get_runner_health env identity (Suc n + k)))"
    proof
      assume "\<exists>k < length (w # schedule). is_ready (get_runner_health env identity (n + k))"
      then obtain k where k: "k < length (w # schedule)"
        "is_ready (get_runner_health env identity (n + k))"
        by blast
      with False obtain k' where "k = Suc k'"
        by (cases k) auto
      with k show "\<exists>k < length schedule. is_ready (get_runner_health env identity (Suc n + k))"
        by (intro exI[of _ k']) simp
    next
      assume "\<exists>k < length schedule. is_ready (get_runner_health env identity (Suc n + k))"
      then obtain k where "k < length schedule"
        "is_ready (get_runner_health env identity (Suc n + k))"
        by blast
      then show "\<exists>k < length (w # schedule). is_ready (get_runner_health env identity (n + k))"
        by (intro exI[of _ "Suc k"]) simp
    qed
    with False Cons.IH show ?thesis by simp
  qed
qed

lemma polls_of_append: "polls_of identity (xs @ ys) = polls_of identity xs + polls_of identity ys"
  by (induction identity xs rule: polls_of.induct) simp_all

lemma wait_until_ready_calls:
  "\<exists>new. snd (wait_until_ready env identity schedule n cs) = cs @ new
         \<and> polls_of i new \<le> (if i = identity then length schedule else 0)"
proof (induction schedule arbitrary: n cs)
  case Nil
  then show ?case by simp
next
  case (Cons w schedule)
  let ?cs1 = "cs @ [WaitSeconds w, GetRunnerHealth identity]"
  show ?case
  proof (cases "is_ready (get_runner_health env identity n)")
    case True
    then have "snd (wait_until_ready env identity (w # schedule) n cs)
                 = cs @ [WaitSeconds w, GetRunnerHealth identity]"
      by simp
    moreover have "polls_of i [WaitSeconds w, GetRunnerHealth identity]
                     \<le> (if i = identity then length (w # schedule) else 0)"
      by simp
    ultimately show ?thesis by blast
  next
    case False
    from Cons.IH[of "Suc n" ?cs1] obtain new where new:
      "snd (wait_until_ready env identity schedule (Suc n) ?cs1) = ?cs1 @ new"
      "polls_of i new \<le> (if i = identity then length schedule else 0)"
      by blast
    from False new(1) have "snd (wait_until_ready env identity (w # schedule) n cs)
                 = cs @ ([WaitSeconds w, GetRunnerHealth identity] @ new)"
      by simp
    moreover have "polls_of i ([WaitSeconds w, GetRunnerHealth identity] @ new)
                     \<le> (if i = identity then length (w # schedule) else 0)"
      using new(2) by (auto simp: polls_of_append split: if_splits)
    ultimately show ?thesis by blast
  qed
qed

lemma create_one_runner_result:
  "fst (create_one_runner env identity cs)
     = (if issue_credential env identity \<and> launch env identity \<and> becomes_ready env identity
        then Some identity else None)"
proof -
  let ?cs1 = "cs @ [IssueCredential identity, Launch identity]"
  obtain ok cs2 where w: "wait_until_ready env identity (readiness_schedule env) 0 ?cs1 = (ok, cs2)"
    by fastforce
  from wait_until_ready_result[of env identity "readiness_schedule env" 0 ?cs1] w
  have "ok \<longleftrightarrow> becomes_ready env identity"
    by (simp add: becomes_ready_def)
  with w show ?thesis
    by (simp add: create_one_runner_def)
qed

lemma create_one_runner_calls:
  "\<exists>new. snd (create_one_runner env identity cs) = cs @ new
         \<and> polls_of i new \<le> (if i = identity then length (readiness_schedule env) else 0)
         \<and> (issue_credential env identity \<and> launch env identity
              \<and> \<not> becomes_ready env identity \<longrightarrow>
            PlatformDeleteRunner identity \<in> set new \<and> CloudDelete identity \<in> set new)"
proof -
  let ?cs1 = "cs @ [IssueCredential identity, Launch identity]"
  obtain ok cs2 where w: "wait_until_ready env identity (readiness_schedule env) 0 ?cs1 = (ok, cs2)"
    by fastforce
  from wait_until_ready_result[of env identity "readiness_schedule env" 0 ?cs1] w
  have ok: "ok \<longleftrightarrow> becomes_ready env identity"
    by (simp add: becomes_ready_def)
  from wait_until_ready_calls[of env identity "readiness_schedule env" 0 ?cs1 i] w
  obtain new where new: "cs2 = ?cs1 @ new"
    "polls_of i new \<le> (if i = identity then length (readiness_schedule env) else 0)"
    by auto
  consider (nocred) "\<not> issue_credential env identity"
    | (nolaunch) "issue_credential env identity" "\<not> launch env identity"
    | (ready) "issue_credential env identity" "launch env identity" "ok"
    | (stillborn) "issue_credential env identity" "launch env identity" "\<not> ok"
    by blast
  then show ?thesis
  proof cases
    case nocred
    then have "snd (create_one_runner env identity cs) = cs @ [IssueCredential identity]"
      by (simp add: create_one_runner_def)
    moreover have "polls_of i [IssueCredential identity] = 0" by simp
    ultimately show ?thesis using nocred by auto
  next
    case nolaunch
    then have "snd (create_one_runner env identity cs)
                 = cs @ [IssueCredential identity, Launch identity, PlatformDeleteRunner identity]"
      by (simp add: create_one_runner_def)
    moreover have "polls_of i [IssueCredential identity, Launch identity,
                               PlatformDeleteRunner identity] = 0" by simp
    ultimately show ?thesis using nolaunch by auto
  next
    case ready
    with w new(1) have "snd (create_one_runner env identity cs)
         = cs @ ([IssueCredential identity, Launch identity] @ new @ [EmitRunnerInstalled identity])"
      by (simp add: create_one_runner_def)
    moreover have "polls_of i ([IssueCredential identity, Launch identity] @ new
                               @ [EmitRunnerInstalled identity])
                     \<le> (if i = identity then length (readiness_schedule env) else 0)"
      using new(2) by (auto simp: polls_of_append split: if_splits)
    ultimately show ?thesis using ready ok by blast
  next
    case stillborn
    with w new(1) have "snd (create_one_runner env identity cs)
         = cs @ ([IssueCredential identity, Launch identity] @ new
                 @ [PlatformDeleteRunner identity, CloudDelete identity])"
      by (simp add: create_one_runner_def)
    moreover have "polls_of i ([IssueCredential identity, Launch identity] @ new
                               @ [PlatformDeleteRunner identity, CloudDelete identity])
                     \<le> (if i = identity then length (readiness_schedule env) else 0)"
      using new(2) by (auto simp: polls_of_append split: if_splits)
    moreover have "PlatformDeleteRunner identity
                     \<in> set ([IssueCredential identity, Launch identity] @ new
                            @ [PlatformDeleteRunner identity, CloudDelete identity])"
      "CloudDelete identity
                     \<in> set ([IssueCredential identity, Launch identity] @ new
                            @ [PlatformDeleteRunner identity, CloudDelete identity])"
      by simp_all
    ultimately show ?thesis by blast
  qed
qed

lemma create_each_returned:
  "fst (create_each env identities cs)
     = filter (\<lambda>i. issue_credential env i \<and> launch env i \<and> becomes_ready env i) identities"
proof (induction identities arbitrary: cs)
  case Nil
  then show ?case by simp
next
  case (Cons i identities)
  obtain c cs1 where c: "create_one_runner env i cs = (c, cs1)"
    by fastforce
  with create_one_runner_result[of env i cs]
  have cv: "c = (if issue_credential env i \<and> launch env i \<and> becomes_ready env i
             then Some i else None)"
    by simp
  obtain returned cs2 where r: "create_each env identities cs1 = (returned, cs2)"
    by fastforce
  with Cons.IH[of cs1]
  have "returned = filter (\<lambda>i. issue_credential env i \<and> launch env i \<and> becomes_ready env i)
                     identities"
    by simp
  with c r cv show ?case
    by simp
qed

lemma create_each_calls:
  assumes "distinct identities"
  shows "\<exists>new. snd (create_each env identities cs) = cs @ new
           \<and> polls_of i new \<le> (if i \<in> set identities then length (readiness_schedule env) else 0)
           \<and> (i \<in> set identities \<and> issue_credential env i \<and> launch env i
                \<and> \<not> becomes_ready env i \<longrightarrow>
              PlatformDeleteRunner i \<in> set new \<and> CloudDelete i \<in> set new)"
  using assms
proof (induction identities arbitrary: cs)
  case Nil
  then show ?case by simp
next
  case (Cons j identities)
  obtain c cs1 where c: "create_one_runner env j cs = (c, cs1)"
    by fastforce
  from create_one_runner_calls[of env j cs i] c obtain new1 where new1:
    "cs1 = cs @ new1"
    "polls_of i new1 \<le> (if i = j then length (readiness_schedule env) else 0)"
    "issue_credential env j \<and> launch env j \<and> \<not> becomes_ready env j \<longrightarrow>
       PlatformDeleteRunner j \<in> set new1 \<and> CloudDelete j \<in> set new1"
    by auto
  from Cons.prems have d: "distinct identities" and nj: "j \<notin> set identities"
    by simp_all
  from Cons.IH[OF d, of cs1] obtain new2 where new2:
    "snd (create_each env identities cs1) = cs1 @ new2"
    "polls_of i new2 \<le> (if i \<in> set identities then length (readiness_schedule env) else 0)"
    "i \<in> set identities \<and> issue_credential env i \<and> launch env i \<and> \<not> becomes_ready env i \<longrightarrow>
       PlatformDeleteRunner i \<in> set new2 \<and> CloudDelete i \<in> set new2"
    by blast
  have 1: "snd (create_each env (j # identities) cs) = cs @ (new1 @ new2)"
    using c new1(1) new2(1) by (auto split: prod.splits)
  have 2: "polls_of i (new1 @ new2)
             \<le> (if i \<in> set (j # identities) then length (readiness_schedule env) else 0)"
    using new1(2) new2(2) nj by (auto simp: polls_of_append split: if_splits)
  have 3: "i \<in> set (j # identities) \<and> issue_credential env i \<and> launch env i
             \<and> \<not> becomes_ready env i \<longrightarrow>
           PlatformDeleteRunner i \<in> set (new1 @ new2) \<and> CloudDelete i \<in> set (new1 @ new2)"
    using new1(3) new2(3) by auto
  from 1 2 3 show ?case by blast
qed

subsection \<open>C3: a created runner is ready or stillborn\<close>

text \<open>
  C3. For every runner of a \<^verbatim>\<open>create_runners\<close> call whose credential was issued and whose
  machine was launched, readiness is decided by polling \<^verbatim>\<open>get_runner_health\<close> at most once
  for each interval of the configured schedule. The runner is in the returned list exactly
  when one of these polls reports \<open>online = true\<close> or \<open>deletable = true\<close>. When the
  schedule is exhausted with neither, the runner is deleted on the platform and on the
  cloud and is not in the returned list.
\<close>

theorem create_runners_ready_or_stillborn:
  assumes "distinct (map (new_instance_id env) [0..<count])"
    and "n < count"
    and "issue_credential env (new_instance_id env n)"
    and "launch env (new_instance_id env n)"
  shows "(new_instance_id env n \<in> set (fst (create_runners env count cs))
            \<longleftrightarrow> becomes_ready env (new_instance_id env n))
       \<and> (\<exists>new. snd (create_runners env count cs) = cs @ new
              \<and> polls_of (new_instance_id env n) new \<le> length (readiness_schedule env)
              \<and> (\<not> becomes_ready env (new_instance_id env n) \<longrightarrow>
                   PlatformDeleteRunner (new_instance_id env n) \<in> set new
                   \<and> CloudDelete (new_instance_id env n) \<in> set new
                   \<and> new_instance_id env n \<notin> set (fst (create_runners env count cs))))"
proof -
  let ?ids = "map (new_instance_id env) [0..<count]"
  let ?i = "new_instance_id env n"
  have mem: "?i \<in> set ?ids"
    using assms(2) by simp
  have returned: "?i \<in> set (fst (create_runners env count cs)) \<longleftrightarrow> becomes_ready env ?i"
    using mem assms(3,4) by (simp add: create_runners_def create_each_returned)
  from create_each_calls[OF assms(1), of env cs ?i] obtain new where new:
    "snd (create_each env ?ids cs) = cs @ new"
    "polls_of ?i new \<le> (if ?i \<in> set ?ids then length (readiness_schedule env) else 0)"
    "?i \<in> set ?ids \<and> issue_credential env ?i \<and> launch env ?i \<and> \<not> becomes_ready env ?i \<longrightarrow>
       PlatformDeleteRunner ?i \<in> set new \<and> CloudDelete ?i \<in> set new"
    by blast
  have "snd (create_runners env count cs) = cs @ new"
    using new(1) by (simp add: create_runners_def)
  moreover have "polls_of ?i new \<le> length (readiness_schedule env)"
    using new(2) mem by simp
  moreover have "\<not> becomes_ready env ?i \<longrightarrow>
                   PlatformDeleteRunner ?i \<in> set new \<and> CloudDelete ?i \<in> set new
                   \<and> ?i \<notin> set (fst (create_runners env count cs))"
    using new(3) mem assms(3,4) returned by blast
  ultimately show ?thesis
    using returned by blast
qed

theorem create_runners_ready_or_stillborn_witness:
  "distinct (map (new_instance_id two_runner_env) [0..<2])
   \<and> create_runners two_runner_env 2 []
       = ([''unit-0-r-a''],
          [IssueCredential ''unit-0-r-a'', Launch ''unit-0-r-a'',
           WaitSeconds 5, GetRunnerHealth ''unit-0-r-a'',
           WaitSeconds 10, GetRunnerHealth ''unit-0-r-a'', EmitRunnerInstalled ''unit-0-r-a'',
           IssueCredential ''unit-0-r-b'', Launch ''unit-0-r-b'',
           WaitSeconds 5, GetRunnerHealth ''unit-0-r-b'',
           WaitSeconds 10, GetRunnerHealth ''unit-0-r-b'',
           WaitSeconds 20, GetRunnerHealth ''unit-0-r-b'',
           PlatformDeleteRunner ''unit-0-r-b'', CloudDelete ''unit-0-r-b''])
   \<and> becomes_ready two_runner_env ''unit-0-r-a''
   \<and> \<not> becomes_ready two_runner_env ''unit-0-r-b''
   \<and> ''unit-0-r-a'' \<in> set (fst (create_runners two_runner_env 2 []))
   \<and> ''unit-0-r-b'' \<notin> set (fst (create_runners two_runner_env 2 []))"
proof -
  have ids: "distinct (map (new_instance_id two_runner_env) [0..<2])"
    by (simp add: two_runner_env_def numeral_2_eq_2)
  have run: "create_runners two_runner_env 2 []
       = ([''unit-0-r-a''],
          [IssueCredential ''unit-0-r-a'', Launch ''unit-0-r-a'',
           WaitSeconds 5, GetRunnerHealth ''unit-0-r-a'',
           WaitSeconds 10, GetRunnerHealth ''unit-0-r-a'', EmitRunnerInstalled ''unit-0-r-a'',
           IssueCredential ''unit-0-r-b'', Launch ''unit-0-r-b'',
           WaitSeconds 5, GetRunnerHealth ''unit-0-r-b'',
           WaitSeconds 10, GetRunnerHealth ''unit-0-r-b'',
           WaitSeconds 20, GetRunnerHealth ''unit-0-r-b'',
           PlatformDeleteRunner ''unit-0-r-b'', CloudDelete ''unit-0-r-b''])"
    by (simp add: create_runners_def create_one_runner_def is_ready_def two_runner_env_def
          numeral_2_eq_2)
  have a: "becomes_ready two_runner_env ''unit-0-r-a''"
    unfolding becomes_ready_def by (intro exI[of _ 1]) (simp add: is_ready_def two_runner_env_def)
  have b: "\<not> becomes_ready two_runner_env ''unit-0-r-b''"
    by (simp add: becomes_ready_def is_ready_def two_runner_env_def)
  have id0: "new_instance_id two_runner_env 0 = ''unit-0-r-a''"
    and id1: "new_instance_id two_runner_env 1 = ''unit-0-r-b''"
    by (simp_all add: two_runner_env_def)
  have ok: "issue_credential two_runner_env i" "launch two_runner_env i" for i
    by (simp_all add: two_runner_env_def)
  from create_runners_ready_or_stillborn [OF ids, of 0 "[]"] a
  have in_a: "''unit-0-r-a'' \<in> set (fst (create_runners two_runner_env 2 []))"
    using ok id0 by simp
  from create_runners_ready_or_stillborn [OF ids, of 1 "[]"] b
  have out_b: "''unit-0-r-b'' \<notin> set (fst (create_runners two_runner_env 2 []))"
    using ok id1 by simp
  from ids run a b in_a out_b show ?thesis
    by (intro conjI)
qed

end
